theory Spec2Isabelle
  imports Complex_Main "HOL-Library.List_Lexorder"
begin

section \<open>Python strings\<close>

text \<open>
  A Python \<open>str\<close> is a sequence of Unicode code points. It is modelled as a list of
  code points (natural numbers), so that \<open>len\<close>, indexing and the whitespace set of
  \<open>str.strip\<close> count what Python counts. Literals of the source are written with
  \<open>ascii\<close>; the backslash is code point 92, the underscore 95, the backtick 96.
\<close>

type_synonym ustr = "nat list"

definition ascii :: "string \<Rightarrow> ustr" where
  "ascii = map of_char"

text \<open>
  \<open>str.isspace\<close> of one code point, the set \<open>str.strip()\<close> and the regex class
  \<open>\s\<close> use (CPython's \<open>_PyUnicode_IsWhitespace\<close>).
\<close>

definition isspace :: "nat \<Rightarrow> bool" where
  "isspace c \<longleftrightarrow>
     (9 \<le> c \<and> c \<le> 13) \<or> (28 \<le> c \<and> c \<le> 32) \<or> c = 133 \<or> c = 160 \<or> c = 5760 \<or>
     (8192 \<le> c \<and> c \<le> 8202) \<or> c = 8232 \<or> c = 8233 \<or> c = 8239 \<or> c = 8287 \<or>
     c = 12288"

definition lstrip_by :: "(nat \<Rightarrow> bool) \<Rightarrow> ustr \<Rightarrow> ustr" where
  "lstrip_by P s = dropWhile P s"

definition rstrip_by :: "(nat \<Rightarrow> bool) \<Rightarrow> ustr \<Rightarrow> ustr" where
  "rstrip_by P s = rev (dropWhile P (rev s))"

definition strip_by :: "(nat \<Rightarrow> bool) \<Rightarrow> ustr \<Rightarrow> ustr" where
  "strip_by P s = rstrip_by P (lstrip_by P s)"

text \<open>\<open>s.strip()\<close>\<close>

definition strip :: "ustr \<Rightarrow> ustr" where
  "strip s = strip_by isspace s"

text \<open>\<open>s.startswith(p)\<close> and \<open>s.endswith(p)\<close>\<close>

definition startswith :: "ustr \<Rightarrow> ustr \<Rightarrow> bool" where
  "startswith s p \<longleftrightarrow> take (length p) s = p"

definition endswith :: "ustr \<Rightarrow> ustr \<Rightarrow> bool" where
  "endswith s p \<longleftrightarrow> length p \<le> length s \<and> drop (length s - length p) s = p"

text \<open>
  \<open>s.find(sub)\<close>: the least index at which \<open>sub\<close> occurs, \<open>None\<close> for Python's
  \<open>-1\<close>. \<open>find_from\<close> is \<open>s.find(sub, start)\<close> for \<open>start \<le> len(s)\<close>.
\<close>

fun find_sub :: "ustr \<Rightarrow> ustr \<Rightarrow> nat option" where
  "find_sub [] sub = (if sub = [] then Some 0 else None)"
| "find_sub (c # s) sub =
     (if startswith (c # s) sub then Some 0
      else (case find_sub s sub of None \<Rightarrow> None | Some k \<Rightarrow> Some (Suc k)))"

definition find_from :: "ustr \<Rightarrow> ustr \<Rightarrow> nat \<Rightarrow> nat option" where
  "find_from s sub start =
     (case find_sub (drop start s) sub of None \<Rightarrow> None | Some k \<Rightarrow> Some (start + k))"

text \<open>\<open>sub in s\<close>\<close>

definition contains :: "ustr \<Rightarrow> ustr \<Rightarrow> bool" where
  "contains s sub \<longleftrightarrow> find_sub s sub \<noteq> None"

text \<open>
  \<open>s.replace(old, new)\<close>: every non-overlapping occurrence of \<open>old\<close>, leftmost first.
  For the empty \<open>old\<close> Python inserts \<open>new\<close> before every character and at the end.
\<close>

function replace_ne :: "ustr \<Rightarrow> ustr \<Rightarrow> ustr \<Rightarrow> ustr" where
  "replace_ne s old new =
     (if s = [] \<or> old = [] then s
      else if startswith s old then new @ replace_ne (drop (length old) s) old new
      else hd s # replace_ne (tl s) old new)"
  by pat_completeness auto
termination
  by (relation "measure (\<lambda>(s, old, new). length s)") (auto simp: neq_Nil_conv)

definition replace :: "ustr \<Rightarrow> ustr \<Rightarrow> ustr \<Rightarrow> ustr" where
  "replace s old new =
     (if old = [] then new @ concat (map (\<lambda>c. c # new) s) else replace_ne s old new)"

text \<open>\<open>s.split(sep)\<close> for a one-character separator: never empty, keeps empty fields.\<close>

fun split :: "ustr \<Rightarrow> nat \<Rightarrow> ustr list" where
  "split [] sep = [[]]"
| "split (c # s) sep =
     (if c = sep then [] # split s sep
      else (case split s sep of [] \<Rightarrow> [[c]] | l # ls \<Rightarrow> (c # l) # ls))"

text \<open>\<open>sep.join(parts)\<close>\<close>

fun join :: "ustr \<Rightarrow> ustr list \<Rightarrow> ustr" where
  "join sep [] = []"
| "join sep [p] = p"
| "join sep (p # q # ps) = p @ sep @ join sep (q # ps)"

section \<open>Math Normalizer: underscore escaping\<close>

text \<open>
  \<open>is_escaped_at\<close> walks left from \<open>index - 1\<close> while it reads backslashes and counts
  them. \<open>backslashes_before text n\<close> is that count for \<open>pos = n - 1\<close>.
\<close>

fun backslashes_before :: "ustr \<Rightarrow> nat \<Rightarrow> nat" where
  "backslashes_before text 0 = 0"
| "backslashes_before text (Suc pos) =
     (if text ! pos = 92 then Suc (backslashes_before text pos) else 0)"

definition is_escaped_at :: "ustr \<Rightarrow> nat \<Rightarrow> bool" where
  "is_escaped_at text index \<longleftrightarrow> backslashes_before text index mod 2 = 1"

definition escape_math_underscores :: "ustr \<Rightarrow> ustr" where
  "escape_math_underscores text =
     concat (map (\<lambda>idx. if text ! idx = 95 \<and> \<not> is_escaped_at text idx then [92, 95]
                         else [text ! idx]) [0..<length text])"

function unescape_from :: "ustr \<Rightarrow> nat \<Rightarrow> ustr" where
  "unescape_from text i =
     (if i < length text then
        (if text ! i = 92 \<and> i + 1 < length text \<and> text ! (i + 1) = 95 \<and> \<not> is_escaped_at text i
         then 95 # unescape_from text (i + 2)
         else text ! i # unescape_from text (i + 1))
      else [])"
  by pat_completeness auto
termination
  by (relation "measure (\<lambda>(text, i). length text - i)") auto

definition unescape_math_underscores :: "ustr \<Rightarrow> ustr" where
  "unescape_math_underscores text = unescape_from text 0"

definition normalize_math_underscores_segment :: "ustr \<Rightarrow> ustr \<Rightarrow> ustr" where
  "normalize_math_underscores_segment text mode =
     (if mode = ascii ''underscore'' then unescape_math_underscores text
      else if mode = ascii ''escaped'' then escape_math_underscores text
      else text)"

section \<open>The Unicode tables of the Python runtime\<close>

text \<open>
  \<open>str.lower\<close> and the alphanumeric property behind the regex class \<open>\w\<close> come from
  the Unicode database of the interpreter. They are parameters of the model; every
  theorem below holds for all of them. \<open>ascii_lib\<close> is the restriction of both to
  ASCII, on which every Unicode version agrees, and is used to evaluate ASCII inputs.
\<close>

record pylib =
  py_lower :: "ustr \<Rightarrow> ustr"
  py_isalnum :: "nat \<Rightarrow> bool"

definition is_word :: "pylib \<Rightarrow> nat \<Rightarrow> bool" where
  "is_word lib c \<longleftrightarrow> py_isalnum lib c \<or> c = 95"

definition is_digit :: "nat \<Rightarrow> bool" where
  "is_digit c \<longleftrightarrow> 48 \<le> c \<and> c \<le> 57"

definition is_ascii_alpha :: "nat \<Rightarrow> bool" where
  "is_ascii_alpha c \<longleftrightarrow> (65 \<le> c \<and> c \<le> 90) \<or> (97 \<le> c \<and> c \<le> 122)"

definition ascii_lib :: pylib where
  "ascii_lib = \<lparr> py_lower = map (\<lambda>c. if 65 \<le> c \<and> c \<le> 90 then c + 32 else c),
                 py_isalnum = (\<lambda>c. is_ascii_alpha c \<or> is_digit c) \<rparr>"

section \<open>Front-Matter Parser\<close>

definition FRONT_MATTER_BOUNDARY :: ustr where
  "FRONT_MATTER_BOUNDARY = ascii ''---''"

text \<open>
  Values a front-matter parser can produce (\<open>dict[str, Any]\<close>): the scalars of
  \<open>parse_scalar\<close>, lists and mappings, and the date values a YAML engine loads.
\<close>

datatype pyfloat = Finite real | Infinite bool | NaN

record datetime =
  dt_year :: int
  dt_month :: int
  dt_day :: int
  dt_hour :: int
  dt_minute :: int
  dt_second :: int
  dt_microsecond :: int
  dt_tzinfo :: "int option"

datatype pyval =
    PNone
  | PBool bool
  | PInt int
  | PFloat pyfloat
  | PStr ustr
  | PList "pyval list"
  | PDict "(pyval \<times> pyval) list"
  | PDateTime datetime
  | PDate int int int

type_synonym meta = "(ustr \<times> pyval) list"

text \<open>
  The scan \<open>for idx in range(1, len(lines))\<close> for the closing delimiter; it is started
  on \<open>lines[1:]\<close> with \<open>idx = 1\<close>. \<open>None\<close> is \<open>end_index == -1\<close>.
\<close>

fun find_end_index :: "ustr list \<Rightarrow> nat \<Rightarrow> nat option" where
  "find_end_index [] idx = None"
| "find_end_index (l # ls) idx =
     (if strip l = FRONT_MATTER_BOUNDARY then Some idx else find_end_index ls (Suc idx))"

definition normalize_newlines :: "ustr \<Rightarrow> ustr" where
  "normalize_newlines text = replace (replace text [13, 10] [10]) [13] [10]"

text \<open>
  \<open>parse_front_matter\<close> tries the optional external YAML engine and falls back to
  \<open>parse_simple_yaml\<close>; either way it returns a dict, so the \<open>isinstance\<close> test after
  it never fires. The parser is a parameter: no claim below depends on what it returns.
\<close>

definition split_front_matter :: "(ustr \<Rightarrow> meta) \<Rightarrow> ustr \<Rightarrow> meta \<times> ustr" where
  "split_front_matter parse_front_matter text =
     (let normalized = normalize_newlines text;
          lines = split normalized 10
      in if lines = [] \<or> strip (hd lines) \<noteq> FRONT_MATTER_BOUNDARY then ([], normalized)
         else (case find_end_index (tl lines) 1 of
                 None \<Rightarrow> ([], normalized)
               | Some end_index \<Rightarrow>
                   (let front_text = join [10] (take (end_index - 1) (drop 1 lines));
                        content = lstrip_by (\<lambda>c. c = 10)
                                    (join [10] (drop (end_index + 1) lines))
                    in (parse_front_matter front_text, content))))"

section \<open>List deduplication\<close>

text \<open>The loop of \<open>dedupe\<close>, with \<open>seen\<close> and \<open>out\<close> as it updates them.\<close>

fun dedupe_loop :: "ustr list \<Rightarrow> ustr set \<Rightarrow> ustr list \<Rightarrow> ustr list" where
  "dedupe_loop [] seen out = out"
| "dedupe_loop (item # items) seen out =
     (let normalized = strip item
      in if normalized = [] \<or> normalized \<in> seen then dedupe_loop items seen out
         else dedupe_loop items (insert normalized seen) (out @ [normalized]))"

definition dedupe :: "ustr list \<Rightarrow> ustr list" where
  "dedupe items = dedupe_loop items {} []"

section \<open>Asset Resolver\<close>

text \<open>
  \<open>TIMESTAMP_SUFFIX_RE = _[0-9]{8}_[0-9]{6}$\<close>. The anchor \<open>$\<close> also matches before a
  final newline, so \<open>sub\<close> removes the suffix either at the very end or just before one
  trailing newline, which it keeps.
\<close>

definition is_timestamp_suffix :: "ustr \<Rightarrow> bool" where
  "is_timestamp_suffix s \<longleftrightarrow>
     length s = 16 \<and> s ! 0 = 95 \<and> list_all is_digit (take 8 (drop 1 s)) \<and> s ! 9 = 95 \<and>
     list_all is_digit (drop 10 s)"

definition strip_asset_suffix :: "ustr \<Rightarrow> ustr" where
  "strip_asset_suffix name =
     (let n = length name
      in if 17 \<le> n \<and> last name = 10 \<and> is_timestamp_suffix (take 16 (drop (n - 17) name))
         then take (n - 17) name @ [10]
         else if 16 \<le> n \<and> is_timestamp_suffix (drop (n - 16) name) then take (n - 16) name
         else name)"

text \<open>
  \<open>re.sub(r"[\s_-]+", "", base)\<close> deletes every character of the class, and
  \<open>re.sub(r"[^\wU+4E00-U+9FFF]+", "", base)\<close> keeps the word characters and the CJK range.
\<close>

definition normalize_asset_match_key :: "pylib \<Rightarrow> ustr \<Rightarrow> ustr" where
  "normalize_asset_match_key lib name =
     (let base = py_lower lib (strip_asset_suffix name);
          base = filter (\<lambda>c. \<not> (isspace c \<or> c = 95 \<or> c = 45)) base;
          base = filter (\<lambda>c. is_word lib c \<or> (19968 \<le> c \<and> c \<le> 40959)) base
      in base)"

text \<open>
  The attributes of a \<open>pathlib.Path\<close> the code reads: the parent directory (compared
  with \<open>source_dir\<close>), the parent's name, the file name and its stem.
\<close>

record path =
  p_parent :: ustr
  p_parent_name :: ustr
  p_name :: ustr
  p_stem :: ustr




section \<open>Link Rewriter\<close>

definition split_url_and_suffix :: "ustr \<Rightarrow> ustr \<times> ustr" where
  "split_url_and_suffix url =
     (let idx = length url;
          idx = (case find_sub url [63] of None \<Rightarrow> idx | Some q_idx \<Rightarrow> min idx q_idx);
          idx = (case find_sub url [35] of None \<Rightarrow> idx | Some h_idx \<Rightarrow> min idx h_idx)
      in (take idx url, drop idx url))"

text \<open>
  \<open>re.match(r"^[a-zA-Z][a-zA-Z0-9+.-]*:", target)\<close>: an ASCII letter, the longest run of
  scheme characters, then a colon. The result is the text after the colon.
\<close>

definition is_scheme_char :: "nat \<Rightarrow> bool" where
  "is_scheme_char c \<longleftrightarrow> is_ascii_alpha c \<or> is_digit c \<or> c = 43 \<or> c = 46 \<or> c = 45"

definition match_scheme :: "ustr \<Rightarrow> ustr option" where
  "match_scheme s =
     (case s of
        [] \<Rightarrow> None
      | c # r \<Rightarrow>
          if is_ascii_alpha c
          then (case dropWhile is_scheme_char r of
                  [] \<Rightarrow> None
                | d # rest \<Rightarrow> if d = 58 then Some rest else None)
          else None)"

definition is_relative_url :: "pylib \<Rightarrow> ustr \<Rightarrow> bool" where
  "is_relative_url lib url =
     (let target = strip url
      in if target = [] then False
         else
           (let lower = py_lower lib target
            in if startswith target [47] \<or> startswith target [35] \<or> startswith target [47, 47]
               then False
               else if startswith lower (ascii ''mailto:'') \<or> startswith lower (ascii ''data:'') \<or>
                       startswith lower (ascii ''javascript:'') \<or> startswith lower (ascii ''tel:'')
               then False
               else if match_scheme target \<noteq> None then False
               else True))"

text \<open>
  \<open>urllib.parse.quote(seg, safe="-_.~")\<close>: the UTF-8 bytes of the segment, each kept when
  it is an ASCII letter, a digit or one of \<open>-_.~\<close>, and written \<open>%XX\<close> otherwise.
\<close>

definition utf8_encode :: "nat \<Rightarrow> nat list" where
  "utf8_encode c =
     (if c < 128 then [c]
      else if c < 2048 then [192 + c div 64, 128 + c mod 64]
      else if c < 65536 then [224 + c div 4096, 128 + (c div 64) mod 64, 128 + c mod 64]
      else [240 + c div 262144, 128 + (c div 4096) mod 64, 128 + (c div 64) mod 64,
            128 + c mod 64])"

definition hex_digit :: "nat \<Rightarrow> nat" where
  "hex_digit d = (if d < 10 then 48 + d else 55 + d)"

definition quote_byte :: "nat \<Rightarrow> ustr" where
  "quote_byte b =
     (if is_ascii_alpha b \<or> is_digit b \<or> b = 45 \<or> b = 95 \<or> b = 46 \<or> b = 126 then [b]
      else [37, hex_digit (b div 16), hex_digit (b mod 16)])"

definition quote :: "ustr \<Rightarrow> ustr" where
  "quote seg = concat (map quote_byte (concat (map utf8_encode seg)))"

definition join_url_prefix :: "ustr \<Rightarrow> ustr list \<Rightarrow> ustr" where
  "join_url_prefix prefix path_segments =
     (let encoded_path = join [47] (map quote (filter (\<lambda>seg. seg \<noteq> []) path_segments));
          clean = strip prefix
      in if (case match_scheme clean of Some rest \<Rightarrow> startswith rest [47, 47] | None \<Rightarrow> False) \<or>
            startswith clean [47, 47]
         then (let base = rstrip_by (\<lambda>c. c = 47) clean
               in if encoded_path \<noteq> [] then base @ [47] @ encoded_path else base)
         else
           (let leading_slash = startswith clean [47];
                prefix_segments =
                  filter (\<lambda>seg. seg \<noteq> []) (split (strip_by (\<lambda>c. c = 47) clean) 47);
                all_segments = prefix_segments @ path_segments;
                encoded = join [47] (map quote (filter (\<lambda>seg. seg \<noteq> []) all_segments))
            in if leading_slash then 47 # encoded else encoded))"

text \<open>\<open>while normalized_path.startswith("./"): normalized_path = normalized_path[2:]\<close>\<close>

function strip_dot_slash :: "ustr \<Rightarrow> ustr" where
  "strip_dot_slash p = (if startswith p [46, 47] then strip_dot_slash (drop 2 p) else p)"
  by pat_completeness auto
termination
  by (relation "measure length") (auto simp: startswith_def neq_Nil_conv intro: diff_less)

definition rewrite_relative_asset_url :: "pylib \<Rightarrow> ustr \<Rightarrow> ustr \<Rightarrow> ustr \<Rightarrow> ustr option" where
  "rewrite_relative_asset_url lib url asset_dir_name asset_url_prefix =
     (if \<not> is_relative_url lib url then None
      else
        (let path_part = fst (split_url_and_suffix (strip url));
             suffix = snd (split_url_and_suffix (strip url));
             normalized_path = replace path_part [92] [47];
             normalized_path = strip_dot_slash normalized_path
         in if startswith normalized_path [46, 46, 47] then None
            else
              (let normalized_path = lstrip_by (\<lambda>c. c = 47) normalized_path
               in if normalized_path = [] then None
                  else
                    (let rel_segments =
                           filter (\<lambda>seg. seg \<noteq> [] \<and> seg \<noteq> [46]) (split normalized_path 47)
                     in if rel_segments = [] then None
                        else
                          (let first_seg_key = normalize_asset_match_key lib (rel_segments ! 0);
                               asset_key = normalize_asset_match_key lib asset_dir_name;
                               target_segments =
                                 (if first_seg_key = asset_key then rel_segments
                                  else asset_dir_name # rel_segments);
                               rewritten = join_url_prefix asset_url_prefix target_segments
                           in if rewritten = [] then None else Some (rewritten @ suffix))))))"

text \<open>
  \<open>split_markdown_target\<close> returns the URL, the tail after it and whether the URL was
  wrapped in angle brackets. \<open>text.split(maxsplit=1)\<close> on the stripped, non-empty text
  is the first run of non-whitespace and what follows the whitespace after it.
\<close>

definition split_markdown_target :: "ustr \<Rightarrow> ustr \<times> ustr \<times> bool" where
  "split_markdown_target raw_target =
     (let text = strip raw_target
      in if text = [] then ([], [], False)
         else
           (case (if startswith text [60] then find_sub text [62] else None) of
              Some close_idx \<Rightarrow>
                (strip (drop 1 (take close_idx text)), drop (close_idx + 1) text, True)
            | None \<Rightarrow>
                (let part0 = takeWhile (\<lambda>c. \<not> isspace c) text;
                     part1 = dropWhile isspace (dropWhile (\<lambda>c. \<not> isspace c) text)
                 in if part1 = [] then (part0, [], False) else (part0, 32 # part1, False))))"

subsection \<open>The two image patterns\<close>

text \<open>
  A pattern is modelled by its matcher at one position: \<open>m text i\<close> is the end of the
  match that starts at index \<open>i\<close> together with the groups (group 0 first), or \<open>None\<close>.
  \<open>re_sub\<close> is \<open>pattern.sub(repl, text)\<close> for a replacement callback that updates a
  state: leftmost matches, not overlapping, every other character copied. \<open>re_finditer\<close>
  lists the groups of the same matches. None of the patterns matches the empty string.
\<close>

type_synonym matcher = "ustr \<Rightarrow> nat \<Rightarrow> (nat \<times> ustr list) option"

function re_sub_from ::
  "matcher \<Rightarrow> ('s \<Rightarrow> ustr list \<Rightarrow> ustr \<times> 's) \<Rightarrow> ustr \<Rightarrow> nat \<Rightarrow> 's \<Rightarrow> ustr \<times> 's" where
  "re_sub_from m repl text i st =
     (if i < length text then
        (case m text i of
           None \<Rightarrow> (case re_sub_from m repl text (i + 1) st of
                      (rest, st') \<Rightarrow> (text ! i # rest, st'))
         | Some (e, groups) \<Rightarrow>
             if i < e \<and> e \<le> length text
             then (case repl st groups of
                     (r, st') \<Rightarrow> (case re_sub_from m repl text e st' of
                                    (rest, st'') \<Rightarrow> (r @ rest, st'')))
             else (case re_sub_from m repl text (i + 1) st of
                     (rest, st') \<Rightarrow> (text ! i # rest, st')))
      else ([], st))"
  by pat_completeness auto
termination
  by (relation "measure (\<lambda>(m, repl, text, i, st). length text - i)") auto

definition re_sub :: "matcher \<Rightarrow> ('s \<Rightarrow> ustr list \<Rightarrow> ustr \<times> 's) \<Rightarrow> ustr \<Rightarrow> 's \<Rightarrow> ustr \<times> 's" where
  "re_sub m repl text st = re_sub_from m repl text 0 st"



text \<open>
  \<open>MARKDOWN_IMAGE_RE = (!\[[^\]]*]\()([^\)\n]+)(\))\<close>. Both character classes exclude
  the character that must follow them, so the greedy runs are the longest ones.
\<close>

definition match_markdown_image :: matcher where
  "match_markdown_image text i =
     (let s = drop i text
      in if startswith s [33, 91] then
           (let alt = takeWhile (\<lambda>c. c \<noteq> 93) (drop 2 s);
                r1 = drop (2 + length alt) s
            in if startswith r1 [93, 40] then
                 (let target = takeWhile (\<lambda>c. c \<noteq> 41 \<and> c \<noteq> 10) (drop 2 r1);
                      r2 = drop (2 + length target) r1
                  in if target \<noteq> [] \<and> startswith r2 [41]
                     then Some (i + length alt + length target + 5,
                                [take (length alt + length target + 5) s,
                                 take (length alt + 4) s, target, [41]])
                     else None)
               else None)
         else None)"

text \<open>
  \<open>HTML_IMG_SRC_RE = (<img\b[^>]*?\bsrc\s*=\s*)(["'])(.+?)(\2)\<close> with \<open>re.IGNORECASE\<close>.
  Under that flag the letters match their two cases and, for \<open>i\<close> and \<open>s\<close>, the code
  points U+0130, U+0131 and U+017F. \<open>match_src_value\<close> is the part after \<open>src\<close>: it
  returns the number of characters consumed, the quote and group 3. \<open>html_scan\<close> is the
  lazy \<open>[^>]*?\<close>: it tries the rest of the pattern at \<open>p\<close> before it consumes one
  more character other than the closing angle bracket.
\<close>

definition word_at :: "pylib \<Rightarrow> ustr \<Rightarrow> nat \<Rightarrow> bool" where
  "word_at lib text p \<longleftrightarrow> p < length text \<and> is_word lib (text ! p)"

definition word_boundary :: "pylib \<Rightarrow> ustr \<Rightarrow> nat \<Rightarrow> bool" where
  "word_boundary lib text p \<longleftrightarrow>
     (if p = 0 then word_at lib text 0 else word_at lib text (p - 1) \<noteq> word_at lib text p)"

definition ci_img :: "ustr \<Rightarrow> bool" where
  "ci_img s \<longleftrightarrow>
     length s = 3 \<and> (s ! 0 = 105 \<or> s ! 0 = 73 \<or> s ! 0 = 304 \<or> s ! 0 = 305) \<and>
     (s ! 1 = 109 \<or> s ! 1 = 77) \<and> (s ! 2 = 103 \<or> s ! 2 = 71)"

definition ci_src :: "ustr \<Rightarrow> bool" where
  "ci_src s \<longleftrightarrow>
     length s = 3 \<and> (s ! 0 = 115 \<or> s ! 0 = 83 \<or> s ! 0 = 383) \<and>
     (s ! 1 = 114 \<or> s ! 1 = 82) \<and> (s ! 2 = 99 \<or> s ! 2 = 67)"

definition match_src_value :: "ustr \<Rightarrow> (nat \<times> nat \<times> ustr) option" where
  "match_src_value s =
     (let ws1 = takeWhile isspace s;
          r1 = drop (length ws1) s
      in if startswith r1 [61] then
           (let ws2 = takeWhile isspace (drop 1 r1);
                r2 = drop (1 + length ws2) r1
            in case r2 of
                 [] \<Rightarrow> None
               | q # r3 \<Rightarrow>
                   if q = 34 \<or> q = 39 then
                     (case r3 of
                        [] \<Rightarrow> None
                      | c # r4 \<Rightarrow>
                          if c = 10 then None
                          else
                            (let v = takeWhile (\<lambda>d. d \<noteq> q \<and> d \<noteq> 10) r4
                             in if startswith (drop (length v) r4) [q]
                                then Some (length ws1 + length ws2 + length v + 4, q, c # v)
                                else None))
                   else None)
         else None)"

function html_scan :: "pylib \<Rightarrow> ustr \<Rightarrow> nat \<Rightarrow> nat \<Rightarrow> (nat \<times> ustr list) option" where
  "html_scan lib text i p =
     (if length text \<le> p then None
      else
        (case (if word_boundary lib text p \<and> ci_src (take 3 (drop p text))
               then match_src_value (drop (p + 3) text) else None) of
           Some (n, q, v) \<Rightarrow>
             Some (p + 3 + n,
                   [take (p + 3 + n - i) (drop i text),
                    take (p + 3 + n - length v - 2 - i) (drop i text), [q], v, [q]])
         | None \<Rightarrow> if text ! p = 62 then None else html_scan lib text i (p + 1)))"
  by pat_completeness auto
termination
  by (relation "measure (\<lambda>(lib, text, i, p). length text - p)") auto

definition match_html_img_src :: "pylib \<Rightarrow> matcher" where
  "match_html_img_src lib text i =
     (if startswith (drop i text) [60] \<and> ci_img (take 3 (drop (i + 1) text)) \<and>
         word_boundary lib text (i + 4)
      then html_scan lib text i (i + 4)
      else None)"


text \<open>The two callbacks of \<open>rewrite_image_links\<close>; the state is the counter \<open>changed\<close>.\<close>

definition replace_markdown ::
  "pylib \<Rightarrow> ustr \<Rightarrow> ustr \<Rightarrow> int \<Rightarrow> ustr list \<Rightarrow> ustr \<times> int" where
  "replace_markdown lib asset_dir_name asset_url_prefix changed groups =
     (case split_markdown_target (groups ! 2) of
        (url, tail, wrapped) \<Rightarrow>
          if url = [] then (groups ! 0, changed)
          else (case rewrite_relative_asset_url lib url asset_dir_name asset_url_prefix of
                  None \<Rightarrow> (groups ! 0, changed)
                | Some rewritten \<Rightarrow>
                    (let target = (if wrapped then [60] @ rewritten @ [62] @ tail
                                   else rewritten @ tail)
                     in (groups ! 1 @ target @ groups ! 3, changed + 1))))"

definition replace_html ::
  "pylib \<Rightarrow> ustr \<Rightarrow> ustr \<Rightarrow> int \<Rightarrow> ustr list \<Rightarrow> ustr \<times> int" where
  "replace_html lib asset_dir_name asset_url_prefix changed groups =
     (case rewrite_relative_asset_url lib (groups ! 3) asset_dir_name asset_url_prefix of
        None \<Rightarrow> (groups ! 0, changed)
      | Some rewritten \<Rightarrow> (groups ! 1 @ groups ! 2 @ rewritten @ groups ! 4, changed + 1))"

definition rewrite_image_links ::
  "pylib \<Rightarrow> ustr \<Rightarrow> ustr option \<Rightarrow> ustr \<Rightarrow> ustr \<Rightarrow> ustr \<times> int" where
  "rewrite_image_links lib content asset_dir_name asset_mode asset_url_prefix =
     (if asset_mode \<noteq> ascii ''prefix'' then (content, 0)
      else
        (case asset_dir_name of
           None \<Rightarrow> (content, 0)
         | Some name \<Rightarrow>
             if name = [] then (content, 0)
             else
               (case re_sub match_markdown_image
                       (replace_markdown lib name asset_url_prefix) content 0 of
                  (content1, changed1) \<Rightarrow>
                    re_sub (match_html_img_src lib)
                      (replace_html lib name asset_url_prefix) content1 changed1)))"

section \<open>Math Normalizer: masking tokens\<close>

definition TOKEN_PREFIX :: ustr where
  "TOKEN_PREFIX = ascii ''@@HEXO2TYPECHO_TOKEN_''"

text \<open>\<open>str(index)\<close> for the token counter, which starts at 0 and only grows.\<close>

function str_nat :: "nat \<Rightarrow> ustr" where
  "str_nat n = (if n < 10 then [48 + n] else str_nat (n div 10) @ [48 + n mod 10])"
  by pat_completeness auto
termination
  by (relation "measure id") auto

definition make_token :: "nat \<Rightarrow> ustr" where
  "make_token index = TOKEN_PREFIX @ str_nat index @ ascii ''@@''"

text \<open>
  A \<open>dict\<close> keeps its keys in insertion order: \<open>d[k] = v\<close> overwrites in place or
  appends, \<open>d.update(e)\<close> stores the items of \<open>e\<close> in their order.
\<close>

type_synonym tokens = "(ustr \<times> ustr) list"

fun dict_set :: "('k \<times> 'v) list \<Rightarrow> 'k \<Rightarrow> 'v \<Rightarrow> ('k \<times> 'v) list" where
  "dict_set [] k v = [(k, v)]"
| "dict_set ((k', v') # d) k v = (if k' = k then (k, v) # d else (k', v') # dict_set d k v)"

definition dict_update :: "('k \<times> 'v) list \<Rightarrow> ('k \<times> 'v) list \<Rightarrow> ('k \<times> 'v) list" where
  "dict_update d e = fold (\<lambda>(k, v) acc. dict_set acc k v) e d"

text \<open>
  \<open>text.splitlines(keepends=True)\<close>: a line ends after \<open>\r\n\<close> or after one of the
  line boundaries of \<open>str.splitlines\<close>; there is no empty last line.
\<close>

definition is_linebreak :: "nat \<Rightarrow> bool" where
  "is_linebreak c \<longleftrightarrow>
     (10 \<le> c \<and> c \<le> 13) \<or> (28 \<le> c \<and> c \<le> 30) \<or> c = 133 \<or> c = 8232 \<or> c = 8233"

fun splitlines_acc :: "ustr \<Rightarrow> ustr \<Rightarrow> ustr list" where
  "splitlines_acc cur [] = (if cur = [] then [] else [cur])"
| "splitlines_acc cur [c] = [cur @ [c]]"
| "splitlines_acc cur (c # d # s) =
     (if c = 13 \<and> d = 10 then (cur @ [13, 10]) # splitlines_acc [] s
      else if is_linebreak c then (cur @ [c]) # splitlines_acc [] (d # s)
      else splitlines_acc (cur @ [c]) (d # s))"

definition splitlines_keepends :: "ustr \<Rightarrow> ustr list" where
  "splitlines_keepends text = splitlines_acc [] text"

text \<open>
  The opening pattern \<open>^[ \t]*(`{3,}|~{3,})\<close> returns group 1. The closing pattern
  \<open>^[ \t]*C{n,}[ \t]*\r?\n?$\<close> for the fence character \<open>C\<close> and length \<open>n\<close>; its
  \<open>$\<close> also matches before one final newline, which gives the six admissible tails.
\<close>

definition match_fence_open :: "ustr \<Rightarrow> ustr option" where
  "match_fence_open line =
     (let r = dropWhile (\<lambda>c. c = 32 \<or> c = 9) line
      in case r of
           [] \<Rightarrow> None
         | c # _ \<Rightarrow>
             if c = 96 \<or> c = 126
             then (let run = takeWhile (\<lambda>d. d = c) r
                   in if 3 \<le> length run then Some run else None)
             else None)"

definition match_fence_close :: "ustr \<Rightarrow> nat \<Rightarrow> ustr \<Rightarrow> bool" where
  "match_fence_close fence_char fence_len line \<longleftrightarrow>
     (let r = dropWhile (\<lambda>c. c = 32 \<or> c = 9) line;
          run = takeWhile (\<lambda>d. [d] = fence_char) r;
          tail = dropWhile (\<lambda>c. c = 32 \<or> c = 9) (drop (length run) r)
      in fence_len \<le> length run \<and>
         (tail = [] \<or> tail = [10] \<or> tail = [13] \<or> tail = [13, 10] \<or> tail = [10, 10] \<or>
          tail = [13, 10, 10]))"

record fence_state =
  fs_out :: "ustr list"
  fs_tokens :: tokens
  fs_token_index :: nat
  fs_in_fence :: bool
  fs_fence_char :: ustr
  fs_fence_len :: nat
  fs_fence_buffer :: "ustr list"

fun mask_fenced_loop :: "ustr list \<Rightarrow> fence_state \<Rightarrow> fence_state" where
  "mask_fenced_loop [] st = st"
| "mask_fenced_loop (line # lines) st =
     (if \<not> fs_in_fence st then
        (case match_fence_open line of
           Some g \<Rightarrow>
             mask_fenced_loop lines
               (st\<lparr>fs_in_fence := True, fs_fence_char := [hd g], fs_fence_len := length g,
                   fs_fence_buffer := [line]\<rparr>)
         | None \<Rightarrow> mask_fenced_loop lines (st\<lparr>fs_out := fs_out st @ [line]\<rparr>))
      else
        (let buffer = fs_fence_buffer st @ [line]
         in if match_fence_close (fs_fence_char st) (fs_fence_len st) line
            then
              (let token = make_token (fs_token_index st)
               in mask_fenced_loop lines
                    (st\<lparr>fs_token_index := fs_token_index st + 1,
                        fs_tokens := dict_set (fs_tokens st) token (concat buffer),
                        fs_out := fs_out st @ [token], fs_in_fence := False,
                        fs_fence_buffer := []\<rparr>))
            else mask_fenced_loop lines (st\<lparr>fs_fence_buffer := buffer\<rparr>)))"

definition mask_fenced_code_blocks :: "ustr \<Rightarrow> nat \<Rightarrow> ustr \<times> tokens \<times> nat" where
  "mask_fenced_code_blocks text start_index =
     (let st = mask_fenced_loop (splitlines_keepends text)
                 \<lparr>fs_out = [], fs_tokens = [], fs_token_index = start_index,
                  fs_in_fence = False, fs_fence_char = [], fs_fence_len = 0,
                  fs_fence_buffer = []\<rparr>;
          out = (if fs_in_fence st \<and> fs_fence_buffer st \<noteq> []
                 then fs_out st @ fs_fence_buffer st else fs_out st)
      in (concat out, fs_tokens st, fs_token_index st))"

function mask_inline_loop ::
  "ustr \<Rightarrow> nat \<Rightarrow> ustr list \<Rightarrow> tokens \<Rightarrow> nat \<Rightarrow> ustr \<times> tokens \<times> nat" where
  "mask_inline_loop text i out tokens token_index =
     (if i < length text then
        (if text ! i \<noteq> 96
         then mask_inline_loop text (i + 1) (out @ [[text ! i]]) tokens token_index
         else
           (let j = i + length (takeWhile (\<lambda>c. c = 96) (drop i text));
                ticks = j - i;
                delimiter = replicate ticks 96
            in case find_from text delimiter j of
                 None \<Rightarrow> mask_inline_loop text (i + 1) (out @ [[text ! i]]) tokens token_index
               | Some close_index \<Rightarrow>
                   (let token = make_token token_index
                    in mask_inline_loop text (close_index + ticks) (out @ [token])
                         (dict_set tokens token (take (close_index + ticks - i) (drop i text)))
                         (token_index + 1))))
      else (concat out, tokens, token_index))"
  by pat_completeness auto
termination
  by (relation "measure (\<lambda>(text, i, out, tokens, token_index). length text - i)")
    (auto simp: find_from_def Cons_nth_drop_Suc [symmetric] split: option.splits)

definition mask_inline_code_spans :: "ustr \<Rightarrow> nat \<Rightarrow> ustr \<times> tokens \<times> nat" where
  "mask_inline_code_spans text start_index = mask_inline_loop text 0 [] [] start_index"

definition restore_tokens :: "ustr \<Rightarrow> tokens \<Rightarrow> ustr" where
  "restore_tokens text tokens = fold (\<lambda>(token, raw) restored. replace restored token raw) tokens text"

section \<open>Math Normalizer: math regions\<close>

text \<open>
  The four math patterns share one shape: an opening delimiter, a lazy group \<open>(.+?)\<close>
  and a closing delimiter.
  \<^item> \<open>DISPLAY_DOLLAR_RE = (?s)(?<!\\)\$\$(.+?)(?<!\\)\$\$\<close>
  \<^item> \<open>BRACKET_MATH_RE = (?s)\\\[(.+?)\\\]\<close>
  \<^item> \<open>PAREN_MATH_RE = (?s)\\\((.+?)\\\)\<close>
  \<^item> \<open>INLINE_DOLLAR_RE = (?<!\\)\$(?!\$)(.+?)(?<!\\)\$\<close>
  \<open>dp_dotall\<close> is the flag \<open>(?s)\<close>, \<open>dp_lookbehind\<close> the two \<open>(?<!\\)\<close> and
  \<open>dp_not_dollar\<close> the lookahead \<open>(?!\$)\<close>. \<open>lazy_close text cl dotall lb j\<close> is the
  least end \<open>j' \<ge> j\<close> of the group, every character before \<open>j\<close> being consumed.
\<close>

record delim_pattern =
  dp_open :: ustr
  dp_close :: ustr
  dp_dotall :: bool
  dp_lookbehind :: bool
  dp_not_dollar :: bool

definition DISPLAY_DOLLAR_RE :: delim_pattern where
  "DISPLAY_DOLLAR_RE = \<lparr>dp_open = [36, 36], dp_close = [36, 36], dp_dotall = True,
                         dp_lookbehind = True, dp_not_dollar = False\<rparr>"

definition BRACKET_MATH_RE :: delim_pattern where
  "BRACKET_MATH_RE = \<lparr>dp_open = [92, 91], dp_close = [92, 93], dp_dotall = True,
                       dp_lookbehind = False, dp_not_dollar = False\<rparr>"

definition PAREN_MATH_RE :: delim_pattern where
  "PAREN_MATH_RE = \<lparr>dp_open = [92, 40], dp_close = [92, 41], dp_dotall = True,
                     dp_lookbehind = False, dp_not_dollar = False\<rparr>"

definition INLINE_DOLLAR_RE :: delim_pattern where
  "INLINE_DOLLAR_RE = \<lparr>dp_open = [36], dp_close = [36], dp_dotall = False,
                        dp_lookbehind = True, dp_not_dollar = True\<rparr>"

function lazy_close :: "ustr \<Rightarrow> ustr \<Rightarrow> bool \<Rightarrow> bool \<Rightarrow> nat \<Rightarrow> nat option" where
  "lazy_close text cl dotall lb j =
     (if length text \<le> j then None
      else if startswith (drop j text) cl \<and> (lb \<longrightarrow> text ! (j - 1) \<noteq> 92) then Some j
      else if \<not> dotall \<and> text ! j = 10 then None
      else lazy_close text cl dotall lb (j + 1))"
  by pat_completeness auto
termination
  by (relation "measure (\<lambda>(text, cl, dotall, lb, j). length text - j)") auto

definition match_delim :: "delim_pattern \<Rightarrow> matcher" where
  "match_delim pat text i =
     (let s = i + length (dp_open pat)
      in if dp_lookbehind pat \<and> 0 < i \<and> text ! (i - 1) = 92 then None
         else if \<not> startswith (drop i text) (dp_open pat) then None
         else if dp_not_dollar pat \<and> startswith (drop s text) [36] then None
         else if length text \<le> s \<or> (\<not> dp_dotall pat \<and> text ! s = 10) then None
         else (case lazy_close text (dp_close pat) (dp_dotall pat) (dp_lookbehind pat) (s + 1) of
                 None \<Rightarrow> None
               | Some j \<Rightarrow>
                   Some (j + length (dp_close pat),
                         [take (j + length (dp_close pat) - i) (drop i text),
                          take (j - s) (drop s text)])))"

text \<open>
  The callback of \<open>protect_math\<close>; its state is \<open>next_token\<close> and \<open>math_tokens\<close>.
\<close>

definition protect_repl ::
  "ustr \<Rightarrow> ustr \<Rightarrow> ustr \<Rightarrow> nat \<times> tokens \<Rightarrow> ustr list \<Rightarrow> ustr \<times> (nat \<times> tokens)" where
  "protect_repl mode prefix suffix st groups =
     (case st of
        (next_token, math_tokens) \<Rightarrow>
          (let token = make_token next_token;
               inner = normalize_math_underscores_segment (groups ! 1) mode
           in (token, (next_token + 1, dict_set math_tokens token (prefix @ inner @ suffix)))))"

definition protect_math ::
  "delim_pattern \<Rightarrow> ustr \<Rightarrow> ustr \<Rightarrow> ustr \<Rightarrow> ustr \<Rightarrow> nat \<times> tokens \<Rightarrow> ustr \<times> (nat \<times> tokens)" where
  "protect_math pat prefix suffix mode masked st =
     re_sub (match_delim pat) (protect_repl mode prefix suffix) masked st"

definition inline_repl :: "ustr \<Rightarrow> unit \<Rightarrow> ustr list \<Rightarrow> ustr \<times> unit" where
  "inline_repl mode st groups =
     ([36] @ normalize_math_underscores_segment (groups ! 1) mode @ [36], ())"

definition normalize_mathjax_underscores :: "ustr \<Rightarrow> ustr \<Rightarrow> ustr" where
  "normalize_mathjax_underscores markdown mode =
     (if mode = ascii ''keep'' \<or> markdown = [] then markdown
      else
        (case mask_fenced_code_blocks markdown 0 of
           (masked0, fence_tokens, next_token0) \<Rightarrow>
        (case mask_inline_code_spans masked0 next_token0 of
           (masked1, inline_code_tokens, next_token1) \<Rightarrow>
        (let code_tokens = dict_update fence_tokens inline_code_tokens
         in
        (case protect_math DISPLAY_DOLLAR_RE [36, 36] [36, 36] mode masked1 (next_token1, []) of
           (masked2, st2) \<Rightarrow>
        (case protect_math BRACKET_MATH_RE [92, 91] [92, 93] mode masked2 st2 of
           (masked3, st3) \<Rightarrow>
        (case protect_math PAREN_MATH_RE [92, 40] [92, 41] mode masked3 st3 of
           (masked4, next_token4, math_tokens) \<Rightarrow>
        (let masked5 = fst (re_sub (match_delim INLINE_DOLLAR_RE) (inline_repl mode) masked4 ());
             masked6 = restore_tokens masked5 math_tokens;
             masked7 = restore_tokens masked6 code_tokens
         in masked7))))))))"

section \<open>Post Assembler\<close>

subsection \<open>Values of the metadata\<close>

text \<open>
  \<open>meta.get(key)\<close>, the truth value Python gives a value in \<open>x or y\<close>, and \<open>str(x)\<close>.
  The text of a float, a list, a mapping or a date is left to the runtime
  (\<open>py_str_other\<close>). The date functions of the standard library are parameters as well:
  \<open>None\<close> stands for the exception they raise.
\<close>

record pydate =
  py_str_other :: "pyval \<Rightarrow> ustr"
  py_isdecimal :: "nat \<Rightarrow> bool"
  py_fromtimestamp :: "pyval \<Rightarrow> datetime option"
  py_fromisoformat :: "ustr \<Rightarrow> datetime option"
  py_strptime :: "ustr \<Rightarrow> ustr \<Rightarrow> datetime option"
  py_now :: datetime
  py_timestamp :: "datetime \<Rightarrow> int"






subsection \<open>Lists of names\<close>


subsection \<open>Status, dates and slugs\<close>








text \<open>
  \<open>ensure_timezone\<close>; a time zone is its offset from UTC, \<open>timezone.utc\<close> is 0.
\<close>

definition ensure_timezone :: "pydate \<Rightarrow> datetime \<Rightarrow> datetime" where
  "ensure_timezone env date_value =
     (if dt_tzinfo date_value = None
      then (let local_tz = (case dt_tzinfo (py_now env) of Some tz \<Rightarrow> tz | None \<Rightarrow> 0)
            in date_value\<lparr>dt_tzinfo := Some local_tz\<rparr>)
      else date_value)"

definition to_unix_timestamp :: "pydate \<Rightarrow> datetime \<Rightarrow> int" where
  "to_unix_timestamp env date_value = py_timestamp env (ensure_timezone env date_value)"

text \<open>
  \<open>re.sub(r"[\s_]+", "-", value)\<close> and \<open>re.sub(r"-+", "-", value)\<close>: every maximal run
  of characters of the class becomes one hyphen.
\<close>

function collapse_runs :: "(nat \<Rightarrow> bool) \<Rightarrow> ustr \<Rightarrow> ustr" where
  "collapse_runs P [] = []"
| "collapse_runs P (c # s) =
     (if P c then 45 # collapse_runs P (dropWhile P s) else c # collapse_runs P s)"
  by pat_completeness auto
termination
  by (relation "measure (\<lambda>(P, s). length s)") (auto simp: le_imp_less_Suc length_dropWhile_le)

definition slugify :: "pylib \<Rightarrow> ustr \<Rightarrow> ustr" where
  "slugify lib text =
     (let v = py_lower lib (strip text);
          v = filter (\<lambda>c. is_word lib c \<or> isspace c \<or> c = 45) v;
          v = collapse_runs (\<lambda>c. isspace c \<or> c = 95) v;
          v = strip_by (\<lambda>c. c = 45) (collapse_runs (\<lambda>c. c = 45) v)
      in if v = [] then ascii ''item'' else v)"


subsection \<open>Posts\<close>

text \<open>The dataclass \<open>HexoPost\<close>; field \<open>f\<close> is \<open>hp_f\<close>.\<close>

record HexoPost =
  hp_source_path :: path
  hp_title :: ustr
  hp_slug :: ustr
  hp_date :: datetime
  hp_updated :: datetime
  hp_author :: ustr
  hp_content :: ustr
  hp_excerpt :: ustr
  hp_categories :: "ustr list"
  hp_tags :: "ustr list"
  hp_status :: ustr
  hp_post_type :: ustr
  hp_asset_dir_name :: "ustr option"
  hp_rewritten_image_links :: int



section \<open>SQL Emitter\<close>

text \<open>The dataclass \<open>Term\<close>; field \<open>f\<close> is \<open>tm_f\<close>.\<close>

record Term =
  tm_mid :: int
  tm_name :: ustr
  tm_slug :: ustr
  tm_term_type :: ustr
  tm_count :: int

record post_row =
  row_cid :: int
  row_title :: ustr
  row_slug :: ustr
  row_created :: int
  row_modified :: int
  row_text :: ustr
  row_authorId :: int
  row_type :: ustr
  row_status :: ustr

definition compose_text :: "ustr \<Rightarrow> ustr \<Rightarrow> ustr" where
  "compose_text content excerpt =
     (let body = strip content;
          summary = strip excerpt;
          merged = (if summary = [] then body
                    else if contains body (ascii ''<!--more-->'') then body
                    else if body = [] then summary
                    else summary @ [10, 10] @ ascii ''<!--more-->'' @ [10, 10] @ body);
          markdown_marker = ascii ''<!--markdown-->''
      in if startswith merged markdown_marker then merged else markdown_marker @ merged)"

text \<open>
  The state of the loop over the posts in \<open>build_sql\<close>. \<open>term_map\<close> is a dict, kept in
  insertion order.
\<close>

record build_state =
  bs_post_rows :: "post_row list"
  bs_term_map :: "((ustr \<times> ustr) \<times> Term) list"
  bs_relationships :: "(int \<times> int) list"
  bs_relation_seen :: "(int \<times> int) set"
  bs_next_cid :: int
  bs_next_mid :: int

text \<open>
  The body of the two inner loops, for one name of one post: \<open>term_type\<close> is
  \<open>"category"\<close> in the first loop and \<open>"tag"\<close> in the second.
\<close>

definition add_term :: "pylib \<Rightarrow> ustr \<Rightarrow> int \<Rightarrow> ustr \<Rightarrow> build_state \<Rightarrow> build_state" where
  "add_term lib term_type cid name st =
     (let key = (term_type, name);
          st1 = (if map_of (bs_term_map st) key = None
                 then st\<lparr>bs_term_map :=
                            dict_set (bs_term_map st) key
                              \<lparr>tm_mid = bs_next_mid st, tm_name = name,
                               tm_slug = slugify lib name, tm_term_type = term_type,
                               tm_count = 0\<rparr>,
                          bs_next_mid := bs_next_mid st + 1\<rparr>
                 else st)
      in case map_of (bs_term_map st1) key of
           None \<Rightarrow> st1
         | Some t \<Rightarrow>
             (let st2 = st1\<lparr>bs_term_map :=
                              dict_set (bs_term_map st1) key (t\<lparr>tm_count := tm_count t + 1\<rparr>)\<rparr>;
                  relation = (cid, tm_mid t)
              in if relation \<notin> bs_relation_seen st2
                 then st2\<lparr>bs_relation_seen := insert relation (bs_relation_seen st2),
                          bs_relationships := bs_relationships st2 @ [relation]\<rparr>
                 else st2))"

definition add_post :: "pylib \<Rightarrow> pydate \<Rightarrow> int \<Rightarrow> HexoPost \<Rightarrow> build_state \<Rightarrow> build_state" where
  "add_post lib env author_id post st =
     (let cid = bs_next_cid st;
          row = \<lparr>row_cid = cid, row_title = hp_title post, row_slug = hp_slug post,
                 row_created = to_unix_timestamp env (hp_date post),
                 row_modified = to_unix_timestamp env (hp_updated post),
                 row_text = compose_text (hp_content post) (hp_excerpt post),
                 row_authorId = max author_id 1,
                 row_type = (if hp_post_type post = ascii ''page'' then ascii ''page''
                             else ascii ''post''),
                 row_status =
                   (if hp_status post \<in> {ascii ''publish'', ascii ''draft'', ascii ''private'',
                                           ascii ''hidden'', ascii ''waiting''}
                    then hp_status post else ascii ''publish'')\<rparr>;
          st = st\<lparr>bs_next_cid := cid + 1, bs_post_rows := bs_post_rows st @ [row]\<rparr>;
          st = fold (add_term lib (ascii ''category'') cid) (dedupe (hp_categories post)) st;
          st = fold (add_term lib (ascii ''tag'') cid) (dedupe (hp_tags post)) st
      in st)"

text \<open>
  \<open>build_sql\<close> up to the sorted list of terms: the tables that the rest of the function
  prints row by row, in this order.
\<close>

definition build_tables ::
  "pylib \<Rightarrow> pydate \<Rightarrow> HexoPost list \<Rightarrow> int \<Rightarrow> int \<Rightarrow> int \<Rightarrow> build_state" where
  "build_tables lib env posts author_id cid_start mid_start =
     fold (add_post lib env author_id) posts
       \<lparr>bs_post_rows = [], bs_term_map = [], bs_relationships = [], bs_relation_seen = {},
        bs_next_cid = max cid_start 1, bs_next_mid = max mid_start 1\<rparr>"

definition terms_of :: "build_state \<Rightarrow> Term list" where
  "terms_of st = sort_key tm_mid (map snd (bs_term_map st))"

section \<open>Notions used to state the properties\<close>

text \<open>
  \<open>first_seen xs\<close> lists the distinct elements of \<open>xs\<close> in the order of their first
  occurrence, \<open>key_index l k\<close> is the position of \<open>k\<close> in \<open>l\<close>.
\<close>

definition first_seen :: "'a list \<Rightarrow> 'a list" where
  "first_seen xs = rev (remdups (rev xs))"

definition key_index :: "'a list \<Rightarrow> 'a \<Rightarrow> nat" where
  "key_index l k = length (takeWhile (\<lambda>x. x \<noteq> k) l)"

text \<open>
  The (kind, name) pairs of one post in emission order, categories before tags, and of
  a list of posts. \<open>events c0 posts\<close> pairs each of them with the content id of its
  post, the \<open>j\<close>-th post (from 0) having the id \<open>c0 + j\<close>.
\<close>

definition post_keys :: "HexoPost \<Rightarrow> (ustr \<times> ustr) list" where
  "post_keys post =
     map (Pair (ascii ''category'')) (dedupe (hp_categories post)) @
     map (Pair (ascii ''tag'')) (dedupe (hp_tags post))"

definition emission_keys :: "HexoPost list \<Rightarrow> (ustr \<times> ustr) list" where
  "emission_keys posts = concat (map post_keys posts)"

fun events :: "int \<Rightarrow> HexoPost list \<Rightarrow> (int \<times> (ustr \<times> ustr)) list" where
  "events c0 [] = []"
| "events c0 (p # ps) = map (Pair c0) (post_keys p) @ events (c0 + 1) ps"

text \<open>
  The term table after the key sequence \<open>ks\<close> when ids start at \<open>m\<close>: one entry for
  each key of \<open>l\<close>, with consecutive ids and the number of occurrences in \<open>ks\<close>.
\<close>

fun term_entries :: "pylib \<Rightarrow> (ustr \<times> ustr) list \<Rightarrow> int \<Rightarrow> (ustr \<times> ustr) list \<Rightarrow>
    ((ustr \<times> ustr) \<times> Term) list" where
  "term_entries lib ks m [] = []"
| "term_entries lib ks m (k # l) =
     (k, \<lparr>tm_mid = m, tm_name = snd k, tm_slug = slugify lib (snd k), tm_term_type = fst k,
          tm_count = int (count_list ks k)\<rparr>) # term_entries lib ks (m + 1) l"

definition term_table :: "pylib \<Rightarrow> int \<Rightarrow> (ustr \<times> ustr) list \<Rightarrow> ((ustr \<times> ustr) \<times> Term) list" where
  "term_table lib m0 ks = term_entries lib ks m0 (first_seen ks)"

definition tables_inv :: "pylib \<Rightarrow> int \<Rightarrow> (int \<times> (ustr \<times> ustr)) list \<Rightarrow> build_state \<Rightarrow> bool" where
  "tables_inv lib m0 es st \<longleftrightarrow>
     bs_term_map st = term_table lib m0 (map snd es) \<and>
     bs_next_mid st = m0 + int (length (first_seen (map snd es))) \<and>
     set (bs_relationships st) =
       (\<lambda>e. (fst e, m0 + int (key_index (first_seen (map snd es)) (snd e)))) ` set es \<and>
     bs_relation_seen st = set (bs_relationships st) \<and>
     distinct (bs_relationships st)"

text \<open>
  The term the claim expects at position \<open>i\<close> (from 0) of the first-seen order: the id
  \<open>m0 + i\<close> and, as count, the number of posts that reference the key.
\<close>

definition expected_term :: "pylib \<Rightarrow> int \<Rightarrow> HexoPost list \<Rightarrow> nat \<Rightarrow> Term" where
  "expected_term lib m0 posts i =
     (let k = first_seen (emission_keys posts) ! i
      in \<lparr>tm_mid = m0 + int i, tm_name = snd k, tm_slug = slugify lib (snd k),
          tm_term_type = fst k,
          tm_count = int (length (filter (\<lambda>p. k \<in> set (post_keys p)) posts))\<rparr>)"

text \<open>An environment for the examples: no date text parses, the clock reads the epoch in UTC.\<close>

definition epoch :: datetime where
  "epoch = \<lparr>dt_year = 1970, dt_month = 1, dt_day = 1, dt_hour = 0, dt_minute = 0,
            dt_second = 0, dt_microsecond = 0, dt_tzinfo = Some 0\<rparr>"

definition example_env :: pydate where
  "example_env = \<lparr>py_str_other = (\<lambda>v. []), py_isdecimal = is_digit,
                  py_fromtimestamp = (\<lambda>v. None), py_fromisoformat = (\<lambda>s. None),
                  py_strptime = (\<lambda>s fmt. None), py_now = epoch, py_timestamp = (\<lambda>d. 0)\<rparr>"

definition example_post :: "ustr list \<Rightarrow> ustr list \<Rightarrow> HexoPost" where
  "example_post categories tags =
     \<lparr>hp_source_path = \<lparr>p_parent = ascii ''_posts'', p_parent_name = ascii ''_posts'',
                         p_name = ascii ''a.md'', p_stem = ascii ''a''\<rparr>,
      hp_title = ascii ''a'', hp_slug = ascii ''a'', hp_date = epoch, hp_updated = epoch,
      hp_author = ascii ''admin'', hp_content = [], hp_excerpt = [],
      hp_categories = categories, hp_tags = tags, hp_status = ascii ''publish'',
      hp_post_type = ascii ''post'', hp_asset_dir_name = None,
      hp_rewritten_image_links = 0\<rparr>"

text \<open>
  The text \<open>escape_math_underscores\<close> produces when no backslash is present: a backslash
  in front of every underscore.
\<close>

definition esc_plain :: "ustr \<Rightarrow> ustr" where
  "esc_plain x = concat (map (\<lambda>c. if c = 95 then [92, 95] else [c]) x)"


text \<open>
  A relative path escapes the current directory when, read segment by segment, a
  \<open>..\<close> segment is met at depth 0; empty segments and \<open>.\<close> keep the depth.
\<close>

fun escapes_from :: "nat \<Rightarrow> ustr list \<Rightarrow> bool" where
  "escapes_from depth [] = False"
| "escapes_from depth (seg # segs) =
     (if seg = [46, 46] then (depth = 0 \<or> escapes_from (depth - 1) segs)
      else if seg = [] \<or> seg = [46] then escapes_from depth segs
      else escapes_from (depth + 1) segs)"

definition path_escapes :: "ustr \<Rightarrow> bool" where
  "path_escapes p = escapes_from 0 (split (replace p [92] [47]) 47)"

text \<open>
  Masking followed by restoring, composed as \<open>normalize_mathjax_underscores\<close> composes
  the three functions: the fence tokens, then the inline tokens in one dict, restored
  in the order of the dict.
\<close>

definition mask_restore :: "ustr \<Rightarrow> ustr" where
  "mask_restore x =
     (case mask_fenced_code_blocks x 0 of
        (masked0, fence_tokens, next_token0) \<Rightarrow>
          (case mask_inline_code_spans masked0 next_token0 of
             (masked1, inline_code_tokens, next_token1) \<Rightarrow>
               restore_tokens masked1 (dict_update fence_tokens inline_code_tokens)))"






section \<open>Evaluation of concrete inputs\<close>

lemmas str_eval =
  ascii_def strip_def strip_by_def lstrip_by_def rstrip_by_def isspace_def startswith_def
  endswith_def find_from_def contains_def replace_def Let_def

lemmas lib_eval =
  ascii_lib_def is_word_def is_digit_def is_ascii_alpha_def

section \<open>Underscore escaping and unescaping\<close>

lemma backslashes_before_none:
  assumes "92 \<notin> set text" and "n \<le> length text"
  shows "backslashes_before text n = 0"
proof (cases n)
  case 0
  then show ?thesis by simp
next
  case (Suc m)
  then have "text ! m \<in> set text" using assms(2) by (intro nth_mem) simp
  with assms(1) have "text ! m \<noteq> 92" by metis
  then show ?thesis using Suc by simp
qed

lemma escape_plain:
  assumes "92 \<notin> set text"
  shows "escape_math_underscores text = esc_plain text"
proof -
  have "\<And>idx. idx < length text \<Longrightarrow> \<not> is_escaped_at text idx"
    using assms by (simp add: is_escaped_at_def backslashes_before_none)
  then have "escape_math_underscores text =
      concat (map (\<lambda>idx. if text ! idx = 95 then [92, 95] else [text ! idx]) [0..<length text])"
    unfolding escape_math_underscores_def by (intro arg_cong[where f=concat] map_cong) auto
  also have "\<dots> =
      concat (map ((\<lambda>c. if c = 95 then [92, 95] else [c]) \<circ> (\<lambda>i. text ! i)) [0..<length text])"
    by (simp add: comp_def)
  also have "\<dots> = esc_plain text"
    unfolding esc_plain_def by (simp only: map_map [symmetric] map_nth)
  finally show ?thesis .
qed

lemma esc_plain_last: "92 \<notin> set pre \<Longrightarrow> pre \<noteq> [] \<Longrightarrow> last (esc_plain pre) \<noteq> 92"
  by (induction pre rule: rev_induct) (auto simp: esc_plain_def)

lemma not_escaped_after_plain:
  assumes "92 \<notin> set pre"
  shows "\<not> is_escaped_at (esc_plain pre @ rest) (length (esc_plain pre))"
proof (cases "pre = []")
  case True
  then show ?thesis by (simp add: esc_plain_def is_escaped_at_def)
next
  case False
  then have ne: "esc_plain pre \<noteq> []" by (cases pre) (auto simp: esc_plain_def)
  then obtain m where m: "length (esc_plain pre) = Suc m" by (cases "esc_plain pre") auto
  have "(esc_plain pre @ rest) ! m = last (esc_plain pre)"
    using m ne by (simp add: nth_append last_conv_nth)
  with esc_plain_last[OF assms False] show ?thesis
    by (simp add: is_escaped_at_def m)
qed

lemma unescape_from_plain:
  "92 \<notin> set pre \<Longrightarrow> 92 \<notin> set x \<Longrightarrow>
   unescape_from (esc_plain pre @ esc_plain x) (length (esc_plain pre)) = x"
proof (induction x arbitrary: pre)
  case Nil
  show ?case by (subst unescape_from.simps) (simp add: esc_plain_def)
next
  case (Cons c x)
  let ?t = "esc_plain pre @ esc_plain (c # x)"
  let ?i = "length (esc_plain pre)"
  have ne: "\<not> is_escaped_at ?t ?i" by (rule not_escaped_after_plain) (use Cons.prems in simp)
  have pre': "92 \<notin> set (pre @ [c])" using Cons.prems by auto
  have x': "92 \<notin> set x" using Cons.prems by auto
  have t_eq: "?t = esc_plain (pre @ [c]) @ esc_plain x"
    by (simp add: esc_plain_def)
  show ?case
  proof (cases "c = 95")
    case True
    have l: "length (esc_plain (pre @ [c])) = ?i + 2" using True by (simp add: esc_plain_def)
    have "unescape_from ?t ?i = 95 # unescape_from ?t (?i + 2)"
      using True ne by (subst unescape_from.simps) (simp add: esc_plain_def nth_append)
    also have "unescape_from ?t (?i + 2) = x"
      using Cons.IH[OF pre' x'] unfolding t_eq l .
    finally show ?thesis using True by simp
  next
    case False
    have l: "length (esc_plain (pre @ [c])) = ?i + 1" using False by (simp add: esc_plain_def)
    have c92: "c \<noteq> 92" using Cons.prems by auto
    have "unescape_from ?t ?i = c # unescape_from ?t (?i + 1)"
      using False c92 by (subst unescape_from.simps) (simp add: esc_plain_def nth_append)
    also have "unescape_from ?t (?i + 1) = x"
      using Cons.IH[OF pre' x'] unfolding t_eq l .
    finally show ?thesis by simp
  qed
qed

text \<open>
  C9. For every text without a backslash, unescaping the escaped text gives the text
  back: \<open>unescape_math_underscores (escape_math_underscores x) = x\<close>.
\<close>

theorem unescape_escape_identity:
  "92 \<notin> set x \<Longrightarrow> unescape_math_underscores (escape_math_underscores x) = x"
  using unescape_from_plain[of "[]" x]
  by (simp add: escape_plain unescape_math_underscores_def esc_plain_def)

theorem unescape_escape_identity_witness:
  "92 \<notin> set (ascii ''a_b_'') \<and>
   escape_math_underscores (ascii ''a_b_'') =
     ascii ''a'' @ [92] @ ascii ''_b'' @ [92] @ ascii ''_'' \<and>
   unescape_math_underscores (escape_math_underscores (ascii ''a_b_'')) = ascii ''a_b_''"
  using unescape_escape_identity[of "ascii ''a_b_''"]
  by (simp add: ascii_def escape_math_underscores_def is_escaped_at_def upt_rec)

section \<open>SQL Emitter: term ids, counts and relationships\<close>

lemmas emit_eval =
  build_tables_def add_post_def add_term_def terms_of_def emission_keys_def post_keys_def
  first_seen_def dedupe_def example_post_def example_env_def slugify_def to_unix_timestamp_def
  ensure_timezone_def compose_text_def epoch_def

subsection \<open>first_seen\<close>

lemma first_seen_Nil: "first_seen [] = []"
  by (simp add: first_seen_def)

lemma first_seen_snoc:
  "first_seen (xs @ [x]) = (if x \<in> set xs then first_seen xs else first_seen xs @ [x])"
  by (simp add: first_seen_def)

lemma set_first_seen: "set (first_seen xs) = set xs"
  by (simp add: first_seen_def)

lemma distinct_first_seen: "distinct (first_seen xs)"
  by (simp add: first_seen_def)

lemma first_seen_distinct: "distinct xs \<Longrightarrow> first_seen xs = xs"
  by (simp add: first_seen_def distinct_remdups_id)

lemma remdups_drop_seen: "x \<in> set bs \<Longrightarrow> remdups (as @ x # bs) = remdups (as @ bs)"
  by (induction as) auto

lemma first_seen_skip: "x \<in> set xs \<Longrightarrow> first_seen (xs @ x # ys) = first_seen (xs @ ys)"
  by (simp add: first_seen_def remdups_drop_seen)

subsection \<open>dedupe\<close>

lemma dedupe_loop_first_seen:
  "distinct out \<Longrightarrow>
   dedupe_loop items (set out) out =
     first_seen (out @ filter (\<lambda>s. s \<noteq> []) (map strip items))"
proof (induction items arbitrary: out)
  case Nil
  then show ?case by (simp add: first_seen_distinct)
next
  case (Cons item items)
  show ?case
  proof (cases "strip item = [] \<or> strip item \<in> set out")
    case True
    then show ?thesis using Cons by (auto simp: first_seen_skip Let_def)
  next
    case False
    then have d: "distinct (out @ [strip item])" using Cons.prems by simp
    have "dedupe_loop (item # items) (set out) out =
          dedupe_loop items (set (out @ [strip item])) (out @ [strip item])"
      using False by (simp add: Let_def)
    also have "\<dots> = first_seen ((out @ [strip item]) @ filter (\<lambda>s. s \<noteq> []) (map strip items))"
      by (rule Cons.IH[OF d])
    finally show ?thesis using False by simp
  qed
qed

lemma dedupe_first_seen: "dedupe items = first_seen (filter (\<lambda>s. s \<noteq> []) (map strip items))"
  using dedupe_loop_first_seen[of "[]" items] by (simp add: dedupe_def)

lemma distinct_dedupe: "distinct (dedupe items)"
  by (simp add: dedupe_first_seen distinct_first_seen)

lemma set_dedupe: "set (dedupe items) = strip ` set items - {[]}"
  by (auto simp: dedupe_first_seen set_first_seen)

lemma category_neq_tag: "ascii ''category'' \<noteq> ascii ''tag''"
  by (simp add: ascii_def)

lemma distinct_post_keys: "distinct (post_keys p)"
  by (auto simp: post_keys_def distinct_map distinct_dedupe inj_on_def category_neq_tag)

subsection \<open>The term table\<close>

lemma map_fst_term_entries: "map fst (term_entries lib ks m l) = l"
  by (induction l arbitrary: m) auto

lemma length_term_entries: "length (term_entries lib ks m l) = length l"
  by (induction l arbitrary: m) auto

lemma term_entries_append:
  "term_entries lib ks m (a @ b) =
   term_entries lib ks m a @ term_entries lib ks (m + int (length a)) b"
  by (induction a arbitrary: m) (auto simp: algebra_simps)

lemma term_entries_new_key:
  "k \<notin> set l \<Longrightarrow> term_entries lib (ks @ [k]) m l = term_entries lib ks m l"
  by (induction l arbitrary: m) auto

lemma map_of_term_entries:
  "map_of (term_entries lib ks m l) k =
     (if k \<in> set l
      then Some \<lparr>tm_mid = m + int (key_index l k), tm_name = snd k,
                 tm_slug = slugify lib (snd k), tm_term_type = fst k,
                 tm_count = int (count_list ks k)\<rparr>
      else None)"
proof (induction l arbitrary: m)
  case Nil
  then show ?case by simp
next
  case (Cons a l)
  show ?case
  proof (cases "a = k")
    case True
    then show ?thesis by (simp add: key_index_def)
  next
    case False
    then show ?thesis using Cons[of "m + 1"] by (auto simp: key_index_def)
  qed
qed

lemma dict_set_fresh: "k \<notin> fst ` set d \<Longrightarrow> dict_set d k v = d @ [(k, v)]"
  by (induction d) auto

lemma dict_set_term_entries:
  "distinct l \<Longrightarrow> k \<in> set l \<Longrightarrow>
   dict_set (term_entries lib ks m l) k
     \<lparr>tm_mid = m + int (key_index l k), tm_name = snd k, tm_slug = slugify lib (snd k),
      tm_term_type = fst k, tm_count = int (count_list ks k) + 1\<rparr> =
   term_entries lib (ks @ [k]) m l"
proof (induction l arbitrary: m)
  case Nil
  then show ?case by simp
next
  case (Cons a l)
  show ?case
  proof (cases "a = k")
    case True
    then have "k \<notin> set l" using Cons.prems by simp
    then show ?thesis using True by (simp add: key_index_def term_entries_new_key)
  next
    case False
    then have "k \<in> set l" "distinct l" using Cons.prems by auto
    from Cons.IH[OF this(2,1), of "m + 1"] False show ?thesis
      by (simp add: key_index_def algebra_simps)
  qed
qed

lemma key_index_snoc: "k \<in> set l \<Longrightarrow> key_index (l @ [x]) k = key_index l k"
  by (induction l) (auto simp: key_index_def)

lemma key_index_less: "k \<in> set l \<Longrightarrow> key_index l k < length l"
  by (induction l) (auto simp: key_index_def)

lemma nth_key_index: "k \<in> set l \<Longrightarrow> l ! key_index l k = k"
  by (induction l) (auto simp: key_index_def)

lemma key_index_inj: "a \<in> set l \<Longrightarrow> b \<in> set l \<Longrightarrow> key_index l a = key_index l b \<Longrightarrow> a = b"
  by (metis nth_key_index)

lemma key_index_first_seen_snoc:
  "k \<in> set ks \<Longrightarrow> key_index (first_seen (ks @ [x])) k = key_index (first_seen ks) k"
  by (simp add: first_seen_snoc key_index_snoc set_first_seen)

subsection \<open>One step of the inner loops\<close>

lemma add_term_inv:
  assumes "tables_inv lib m0 es st"
  shows "tables_inv lib m0 (es @ [(cid, (ty, name))]) (add_term lib ty cid name st)"
proof -
  let ?k = "(ty, name)"
  let ?ks = "map snd es"
  let ?l = "first_seen ?ks"
  let ?l' = "first_seen (?ks @ [?k])"
  from assms have tm: "bs_term_map st = term_entries lib ?ks m0 ?l"
    and nm: "bs_next_mid st = m0 + int (length ?l)"
    and rs: "set (bs_relationships st) = (\<lambda>e. (fst e, m0 + int (key_index ?l (snd e)))) ` set es"
    and seen: "bs_relation_seen st = set (bs_relationships st)"
    and dist: "distinct (bs_relationships st)"
    by (simp_all add: tables_inv_def term_table_def)
  define t where "t = \<lparr>tm_mid = m0 + int (key_index ?l' ?k), tm_name = name,
      tm_slug = slugify lib name, tm_term_type = ty, tm_count = int (count_list ?ks ?k)\<rparr>"
  define st1 where "st1 = (if map_of (bs_term_map st) ?k = None
       then st\<lparr>bs_term_map := dict_set (bs_term_map st) ?k
                  \<lparr>tm_mid = bs_next_mid st, tm_name = name, tm_slug = slugify lib name,
                   tm_term_type = ty, tm_count = 0\<rparr>,
                bs_next_mid := bs_next_mid st + 1\<rparr>
       else st)"
  have tm1: "bs_term_map st1 = term_entries lib ?ks m0 ?l'"
    and nm1: "bs_next_mid st1 = m0 + int (length ?l')"
    and rest1: "bs_relationships st1 = bs_relationships st" "bs_relation_seen st1 = bs_relation_seen st"
  proof -
    show "bs_term_map st1 = term_entries lib ?ks m0 ?l'"
    proof (cases "?k \<in> set ?ks")
      case True
      then show ?thesis
        by (simp add: st1_def tm map_of_term_entries set_first_seen first_seen_snoc)
    next
      case False
      then have fresh: "?k \<notin> fst ` set (term_entries lib ?ks m0 ?l)"
        using map_fst_term_entries[of lib ?ks m0 ?l]
        by (metis set_first_seen set_map)
      have c0: "count_list ?ks ?k = 0" using False by (simp add: count_list_0_iff)
      show ?thesis using False fresh c0
        by (simp add: st1_def tm nm map_of_term_entries set_first_seen first_seen_snoc
            dict_set_fresh term_entries_append)
    qed
    show "bs_next_mid st1 = m0 + int (length ?l')"
      by (cases "?k \<in> set ?ks")
        (simp_all add: st1_def tm nm map_of_term_entries set_first_seen first_seen_snoc)
    show "bs_relationships st1 = bs_relationships st" "bs_relation_seen st1 = bs_relation_seen st"
      by (simp_all add: st1_def)
  qed
  have kin: "?k \<in> set ?l'" by (simp add: set_first_seen)
  have look: "map_of (bs_term_map st1) ?k = Some t"
    using kin by (simp add: tm1 map_of_term_entries t_def)
  define st2 where "st2 = st1\<lparr>bs_term_map := dict_set (bs_term_map st1) ?k (t\<lparr>tm_count := tm_count t + 1\<rparr>)\<rparr>"
  have tm2: "bs_term_map st2 = term_entries lib (?ks @ [?k]) m0 ?l'"
    using dict_set_term_entries[OF distinct_first_seen kin, of lib ?ks m0]
    by (simp add: st2_def tm1 t_def)
  define rel where "rel = (cid, tm_mid t)"
  have res: "add_term lib ty cid name st =
      (if rel \<notin> bs_relation_seen st2
       then st2\<lparr>bs_relation_seen := insert rel (bs_relation_seen st2),
                bs_relationships := bs_relationships st2 @ [rel]\<rparr>
       else st2)"
    unfolding add_term_def Let_def st1_def[symmetric] look option.case st2_def[symmetric] rel_def
    by simp
  have img: "(\<lambda>e. (fst e, m0 + int (key_index ?l' (snd e)))) ` set (es @ [(cid, ?k)]) =
             insert rel (set (bs_relationships st))"
  proof -
    have "\<And>e. e \<in> set es \<Longrightarrow> key_index ?l' (snd e) = key_index ?l (snd e)"
      by (rule key_index_first_seen_snoc) simp
    then have "(\<lambda>e. (fst e, m0 + int (key_index ?l' (snd e)))) ` set es = set (bs_relationships st)"
      unfolding rs by (intro image_cong) auto
    then show ?thesis by (simp add: rel_def t_def)
  qed
  have st2r: "bs_relationships st2 = bs_relationships st" "bs_relation_seen st2 = bs_relation_seen st"
    "bs_next_mid st2 = bs_next_mid st1"
    by (simp_all add: st2_def rest1)
  show ?thesis
    unfolding tables_inv_def term_table_def res
    using tm2 nm1 img st2r seen dist
    by (auto simp: insert_absorb)
qed

lemma add_term_cid: "bs_next_cid (add_term lib ty cid name st) = bs_next_cid st"
  by (simp add: add_term_def Let_def split: option.splits)

lemma fold_add_term_inv:
  "tables_inv lib m0 es st \<Longrightarrow>
   tables_inv lib m0 (es @ map (\<lambda>n. (cid, (ty, n))) names) (fold (add_term lib ty cid) names st)"
proof (induction names arbitrary: es st)
  case Nil
  then show ?case by simp
next
  case (Cons n names)
  from Cons.IH[OF add_term_inv[OF Cons.prems, of cid ty n]] show ?case by simp
qed

lemma fold_add_term_cid: "bs_next_cid (fold (add_term lib ty cid) names st) = bs_next_cid st"
  by (induction names arbitrary: st) (simp_all add: add_term_cid)

lemma tables_inv_rows:
  "tables_inv lib m0 es st \<Longrightarrow> tables_inv lib m0 es (st\<lparr>bs_next_cid := c, bs_post_rows := r\<rparr>)"
  by (simp add: tables_inv_def)

lemma add_post_inv:
  assumes "tables_inv lib m0 es st"
  shows "tables_inv lib m0 (es @ map (Pair (bs_next_cid st)) (post_keys post))
           (add_post lib env author_id post st)"
proof -
  have e: "map (Pair (bs_next_cid st)) (post_keys post) =
        map (\<lambda>n. (bs_next_cid st, (ascii ''category'', n))) (dedupe (hp_categories post)) @
        map (\<lambda>n. (bs_next_cid st, (ascii ''tag'', n))) (dedupe (hp_tags post))"
    by (simp add: post_keys_def)
  show ?thesis
    unfolding add_post_def Let_def e append_assoc[symmetric]
    by (intro fold_add_term_inv tables_inv_rows assms)
qed

lemma add_post_cid: "bs_next_cid (add_post lib env author_id post st) = bs_next_cid st + 1"
  by (simp add: add_post_def Let_def fold_add_term_cid)

lemma events_snoc: "events c0 (ps @ [p]) = events c0 ps @ map (Pair (c0 + int (length ps))) (post_keys p)"
  by (induction ps arbitrary: c0) (auto simp: algebra_simps)

lemma map_snd_events: "map snd (events c0 ps) = emission_keys ps"
  by (induction ps arbitrary: c0) (auto simp: emission_keys_def comp_def)

lemma fold_add_post_inv:
  assumes "tables_inv lib m0 [] st0" "bs_next_cid st0 = c0"
  shows "tables_inv lib m0 (events c0 posts) (fold (add_post lib env author_id) posts st0) \<and>
         bs_next_cid (fold (add_post lib env author_id) posts st0) = c0 + int (length posts)"
proof (induction posts rule: rev_induct)
  case Nil
  then show ?case using assms by simp
next
  case (snoc p ps)
  then show ?case
    using add_post_inv[of lib m0 "events c0 ps" "fold (add_post lib env author_id) ps st0" p env author_id]
    by (simp add: events_snoc add_post_cid)
qed

lemma build_tables_inv:
  "tables_inv lib (max mid_start 1) (events (max cid_start 1) posts)
     (build_tables lib env posts author_id cid_start mid_start)"
  unfolding build_tables_def
  by (rule fold_add_post_inv[THEN conjunct1])
     (simp_all add: tables_inv_def term_table_def first_seen_Nil)

lemma nth_term_entries:
  "i < length l \<Longrightarrow>
   term_entries lib ks m l ! i =
     (l ! i, \<lparr>tm_mid = m + int i, tm_name = snd (l ! i), tm_slug = slugify lib (snd (l ! i)),
              tm_term_type = fst (l ! i), tm_count = int (count_list ks (l ! i))\<rparr>)"
proof (induction l arbitrary: m i)
  case Nil
  then show ?case by simp
next
  case (Cons a l)
  show ?case
  proof (cases i)
    case 0
    then show ?thesis by simp
  next
    case (Suc n)
    then have "n < length l" using Cons.prems by simp
    from Cons.IH[OF this, of "m + 1"] Suc show ?thesis by (simp add: algebra_simps)
  qed
qed

lemma term_entries_mid_ge: "e \<in> set (term_entries lib ks m l) \<Longrightarrow> m \<le> tm_mid (snd e)"
proof (induction l arbitrary: m)
  case Nil
  then show ?case by simp
next
  case (Cons a l)
  then show ?case by (auto dest: Cons.IH)
qed

lemma sorted_term_entries: "sorted (map tm_mid (map snd (term_entries lib ks m l)))"
proof (induction l arbitrary: m)
  case Nil
  then show ?case by simp
next
  case (Cons a l)
  have "\<And>e. e \<in> set (term_entries lib ks (m + 1) l) \<Longrightarrow> m \<le> tm_mid (snd e)"
    using term_entries_mid_ge[of _ lib ks "m + 1" l] by fastforce
  then show ?case using Cons.IH[of "m + 1"] by auto
qed

lemma count_list_distinct: "distinct xs \<Longrightarrow> count_list xs k = (if k \<in> set xs then 1 else 0)"
  by (induction xs) auto

lemma count_emission_keys:
  "count_list (emission_keys posts) k = length (filter (\<lambda>p. k \<in> set (post_keys p)) posts)"
proof (induction posts)
  case Nil
  then show ?case by (simp add: emission_keys_def)
next
  case (Cons p posts)
  have "count_list (emission_keys (p # posts)) k =
        count_list (post_keys p) k + count_list (emission_keys posts) k"
    by (simp add: emission_keys_def)
  then show ?case using Cons by (simp add: count_list_distinct[OF distinct_post_keys])
qed

lemma terms_of_build_tables:
  "terms_of (build_tables lib env posts author_id cid_start mid_start) =
   map (expected_term lib (max mid_start 1) posts) [0..<length (first_seen (emission_keys posts))]"
proof -
  let ?st = "build_tables lib env posts author_id cid_start mid_start"
  let ?ks = "emission_keys posts"
  let ?l = "first_seen ?ks"
  let ?m0 = "max mid_start 1"
  have tm: "bs_term_map ?st = term_entries lib ?ks ?m0 ?l"
    using build_tables_inv[of lib mid_start cid_start posts env author_id]
    by (simp add: tables_inv_def term_table_def map_snd_events)
  have "terms_of ?st = map snd (term_entries lib ?ks ?m0 ?l)"
    unfolding terms_of_def tm by (rule sort_key_id_if_sorted) (rule sorted_term_entries)
  also have "\<dots> = map (expected_term lib ?m0 posts) [0..<length ?l]"
    by (rule nth_equalityI)
       (simp_all add: length_term_entries nth_term_entries expected_term_def count_emission_keys
          Let_def)
  finally show ?thesis .
qed

lemma map_of_build_tables:
  assumes "k \<in> set (emission_keys posts)"
  shows "map_of (bs_term_map (build_tables lib env posts author_id cid_start mid_start)) k =
     Some \<lparr>tm_mid = max mid_start 1 + int (key_index (first_seen (emission_keys posts)) k),
           tm_name = snd k, tm_slug = slugify lib (snd k), tm_term_type = fst k,
           tm_count = int (length (filter (\<lambda>p. k \<in> set (post_keys p)) posts))\<rparr>"
  using build_tables_inv[of lib mid_start cid_start posts env author_id] assms
  by (simp add: tables_inv_def term_table_def map_snd_events map_of_term_entries set_first_seen
      count_emission_keys)

lemma key_index_nth: "distinct l \<Longrightarrow> i < length l \<Longrightarrow> key_index l (l ! i) = i"
  by (metis key_index_less nth_key_index nth_mem nth_eq_iff_index_eq)

text \<open>
  C5 (as amended). The ids start at \<open>max(mid_start, 1)\<close>, not at \<open>mid_start\<close>: the
  \<open>N\<close>-th distinct (kind, name) pair in emission order gets the id
  \<open>max(mid_start, 1) + N - 1\<close>, it is the \<open>N\<close>-th term of the sorted term list, and
  its count is the number of posts that reference it.
\<close>

theorem term_ids_sequential:
  assumes "1 \<le> N" and "N \<le> length (first_seen (emission_keys posts))"
  shows "let st = build_tables lib env posts author_id cid_start mid_start;
             k = first_seen (emission_keys posts) ! (N - 1)
         in \<exists>t. map_of (bs_term_map st) k = Some t \<and> terms_of st ! (N - 1) = t \<and>
                tm_name t = snd k \<and> tm_term_type t = fst k \<and>
                tm_mid t = max mid_start 1 + int N - 1 \<and>
                tm_count t = int (length (filter (\<lambda>p. k \<in> set (post_keys p)) posts))"
proof -
  let ?l = "first_seen (emission_keys posts)"
  define i where "i = N - 1"
  have i: "i < length ?l" using assms by (simp add: i_def)
  then have kin: "?l ! i \<in> set (emission_keys posts)"
    using nth_mem set_first_seen by metis
  have idx: "key_index ?l (?l ! i) = i"
    by (rule key_index_nth[OF distinct_first_seen i])
  have n: "int i = int N - 1" using assms by (simp add: i_def)
  have "terms_of (build_tables lib env posts author_id cid_start mid_start) ! i =
        expected_term lib (max mid_start 1) posts i"
    using i by (simp add: terms_of_build_tables)
  then show ?thesis
    unfolding Let_def i_def[symmetric]
    using n by (simp add: map_of_build_tables[OF kin] idx expected_term_def Let_def)
qed

lemma example_keys:
  "first_seen (emission_keys
     [example_post [ascii ''x''] [ascii ''a'', ascii '' a '', ascii ''b''],
      example_post [] [ascii ''b'']]) =
   [(ascii ''category'', ascii ''x''), (ascii ''tag'', ascii ''a''), (ascii ''tag'', ascii ''b'')]"
  by (simp add: emit_eval str_eval)

theorem term_ids_sequential_witness:
  "(1::nat) \<le> 3 \<and>
   3 \<le> length (first_seen (emission_keys
          [example_post [ascii ''x''] [ascii ''a'', ascii '' a '', ascii ''b''],
           example_post [] [ascii ''b'']])) \<and>
   (\<exists>t. map_of (bs_term_map (build_tables ascii_lib example_env
            [example_post [ascii ''x''] [ascii ''a'', ascii '' a '', ascii ''b''],
             example_post [] [ascii ''b'']] 1 1 5))
          (ascii ''tag'', ascii ''b'') = Some t \<and>
        tm_mid t = 5 + 3 - 1 \<and> tm_count t = 2)"
proof -
  let ?posts = "[example_post [ascii ''x''] [ascii ''a'', ascii '' a '', ascii ''b''],
                 example_post [] [ascii ''b'']]"
  have h1: "(1::nat) \<le> 3" by simp
  have h2: "3 \<le> length (first_seen (emission_keys ?posts))" by (simp add: example_keys)
  have k: "first_seen (emission_keys ?posts) ! (3 - 1) = (ascii ''tag'', ascii ''b'')"
    by (simp add: example_keys)
  have c: "length (filter (\<lambda>p. (ascii ''tag'', ascii ''b'') \<in> set (post_keys p)) ?posts) = 2"
    by (simp add: emit_eval str_eval)
  from term_ids_sequential[OF h1 h2, of ascii_lib example_env 1 1 5]
  show ?thesis unfolding Let_def k c using h2 by auto
qed

text \<open>
  C5 as stated fails for a starting id below 1: with \<open>mid_start = 0\<close> the first pair
  gets the id 1, and \<open>start + N - 1\<close> is 0.
\<close>

theorem term_id_start_counterexample:
  "first_seen (emission_keys [example_post [] [ascii ''a'']]) ! (1 - 1) = (ascii ''tag'', ascii ''a'') \<and>
   map tm_mid (terms_of (build_tables ascii_lib example_env [example_post [] [ascii ''a'']] 1 1 0)) = [1] \<and>
   (1::int) \<noteq> 0 + 1 - 1"
  by (simp add: emit_eval str_eval lib_eval)

text \<open>
  C6. The relationship rows hold no (content id, term id) pair twice, whatever the
  posts list.
\<close>

theorem relationships_distinct:
  "distinct (bs_relationships (build_tables lib env posts author_id cid_start mid_start))"
  using build_tables_inv[of lib mid_start cid_start posts env author_id]
  by (simp add: tables_inv_def)

theorem relationships_distinct_witness:
  "bs_relationships (build_tables ascii_lib example_env
      [example_post [] [ascii ''a'', ascii ''a'']] 1 1 1) = [(1, 1)] \<and>
   distinct (bs_relationships (build_tables ascii_lib example_env
      [example_post [] [ascii ''a'', ascii ''a'']] 1 1 1))"
proof -
  have "bs_relationships (build_tables ascii_lib example_env
          [example_post [] [ascii ''a'', ascii ''a'']] 1 1 1) = [(1, 1)]"
    by (simp add: emit_eval str_eval lib_eval)
  with relationships_distinct[of ascii_lib example_env
      "[example_post [] [ascii ''a'', ascii ''a'']]" 1 1 1]
  show ?thesis by simp
qed

lemma events_mem:
  "j < length posts \<Longrightarrow> k \<in> set (post_keys (posts ! j)) \<Longrightarrow>
   (c0 + int j, k) \<in> set (events c0 posts)"
proof (induction posts arbitrary: c0 j)
  case Nil
  then show ?case by simp
next
  case (Cons p posts)
  show ?case
  proof (cases j)
    case 0
    then show ?thesis using Cons.prems by simp
  next
    case (Suc n)
    then have "(c0 + 1 + int n, k) \<in> set (events (c0 + 1) posts)"
      using Cons.prems by (intro Cons.IH) simp_all
    then show ?thesis using Suc by (simp add: algebra_simps)
  qed
qed

lemma emission_keys_mem:
  "j < length posts \<Longrightarrow> k \<in> set (post_keys (posts ! j)) \<Longrightarrow> k \<in> set (emission_keys posts)"
  by (auto simp: emission_keys_def intro: nth_mem)

lemma relationship_present:
  assumes "j < length posts" and "k \<in> set (post_keys (posts ! j))"
  shows "(max cid_start 1 + int j,
          max mid_start 1 + int (key_index (first_seen (emission_keys posts)) k))
         \<in> set (bs_relationships (build_tables lib env posts author_id cid_start mid_start))"
proof -
  have "set (bs_relationships (build_tables lib env posts author_id cid_start mid_start)) =
        (\<lambda>e. (fst e, max mid_start 1 + int (key_index (first_seen (emission_keys posts)) (snd e))))
          ` set (events (max cid_start 1) posts)"
    using build_tables_inv[of lib mid_start cid_start posts env author_id]
    by (simp add: tables_inv_def map_snd_events)
  moreover have "(max cid_start 1 + int j, k) \<in> set (events (max cid_start 1) posts)"
    by (rule events_mem[OF assms])
  ultimately show ?thesis by force
qed

lemma post_keys_category:
  "a \<in> set (hp_categories p) \<Longrightarrow> strip a \<noteq> [] \<Longrightarrow> (ascii ''category'', strip a) \<in> set (post_keys p)"
  by (simp add: post_keys_def set_dedupe)

lemma post_keys_tag:
  "a \<in> set (hp_tags p) \<Longrightarrow> strip a \<noteq> [] \<Longrightarrow> (ascii ''tag'', strip a) \<in> set (post_keys p)"
  by (simp add: post_keys_def set_dedupe)

text \<open>
  C10. \<open>dedupe\<close> trims the items and keeps the first occurrence of each non-empty
  trimmed text, comparing the texts exactly. So two names of one post whose trimmed
  texts differ, be it only in letter case, get two terms with different ids and two
  relationship rows.
\<close>

theorem dedupe_case_sensitive:
  assumes "j < length posts"
    and "kind = ascii ''category'' \<and> names = hp_categories (posts ! j) \<or>
         kind = ascii ''tag'' \<and> names = hp_tags (posts ! j)"
    and "a \<in> set names" and "b \<in> set names"
    and "strip a \<noteq> []" and "strip b \<noteq> []" and "strip a \<noteq> strip b"
  shows "dedupe names = first_seen (filter (\<lambda>s. s \<noteq> []) (map strip names)) \<and>
         (let st = build_tables lib env posts author_id cid_start mid_start;
              cid = max cid_start 1 + int j
          in \<exists>ta tb. map_of (bs_term_map st) (kind, strip a) = Some ta \<and>
                     map_of (bs_term_map st) (kind, strip b) = Some tb \<and>
                     tm_name ta = strip a \<and> tm_name tb = strip b \<and>
                     tm_mid ta \<noteq> tm_mid tb \<and>
                     (cid, tm_mid ta) \<in> set (bs_relationships st) \<and>
                     (cid, tm_mid tb) \<in> set (bs_relationships st))"
proof -
  let ?ka = "(kind, strip a)" and ?kb = "(kind, strip b)"
  let ?l = "first_seen (emission_keys posts)"
  have ka: "?ka \<in> set (post_keys (posts ! j))" and kb: "?kb \<in> set (post_keys (posts ! j))"
    using assms(2-6) by (auto intro: post_keys_category post_keys_tag)
  have ea: "?ka \<in> set (emission_keys posts)" and eb: "?kb \<in> set (emission_keys posts)"
    using emission_keys_mem[OF assms(1)] ka kb by blast+
  have "key_index ?l ?ka \<noteq> key_index ?l ?kb"
    using key_index_inj[of ?ka ?l ?kb] ea eb assms(7) by (auto simp: set_first_seen)
  then show ?thesis
    using relationship_present[OF assms(1) ka, of cid_start mid_start lib env author_id]
      relationship_present[OF assms(1) kb, of cid_start mid_start lib env author_id]
    by (simp add: Let_def map_of_build_tables[OF ea] map_of_build_tables[OF eb] dedupe_first_seen)
qed

theorem dedupe_case_sensitive_witness:
  "dedupe [ascii ''Tag'', ascii ''tag'', ascii '' tag''] = [ascii ''Tag'', ascii ''tag''] \<and>
   (\<exists>ta tb. map_of (bs_term_map (build_tables ascii_lib example_env
                 [example_post [] [ascii ''Tag'', ascii ''tag'', ascii '' tag'']] 1 1 1))
               (ascii ''tag'', ascii ''Tag'') = Some ta \<and>
            map_of (bs_term_map (build_tables ascii_lib example_env
                 [example_post [] [ascii ''Tag'', ascii ''tag'', ascii '' tag'']] 1 1 1))
               (ascii ''tag'', ascii ''tag'') = Some tb \<and>
            tm_mid ta \<noteq> tm_mid tb \<and>
            (1, tm_mid ta) \<in> set (bs_relationships (build_tables ascii_lib example_env
                 [example_post [] [ascii ''Tag'', ascii ''tag'', ascii '' tag'']] 1 1 1)) \<and>
            (1, tm_mid tb) \<in> set (bs_relationships (build_tables ascii_lib example_env
                 [example_post [] [ascii ''Tag'', ascii ''tag'', ascii '' tag'']] 1 1 1)))"
proof -
  let ?names = "[ascii ''Tag'', ascii ''tag'', ascii '' tag'']"
  let ?posts = "[example_post [] ?names]"
  have j: "0 < length ?posts" by simp
  have n: "ascii ''tag'' = ascii ''category'' \<and> ?names = hp_categories (?posts ! 0) \<or>
           ascii ''tag'' = ascii ''tag'' \<and> ?names = hp_tags (?posts ! 0)"
    by (simp add: example_post_def)
  have a: "ascii ''Tag'' \<in> set ?names" by simp
  have b: "ascii ''tag'' \<in> set ?names" by simp
  have sa: "strip (ascii ''Tag'') = ascii ''Tag''" by (simp add: str_eval)
  have sb: "strip (ascii ''tag'') = ascii ''tag''" by (simp add: str_eval)
  have na: "strip (ascii ''Tag'') \<noteq> []" and nb: "strip (ascii ''tag'') \<noteq> []"
    and ne: "strip (ascii ''Tag'') \<noteq> strip (ascii ''tag'')"
    unfolding sa sb by (simp_all add: ascii_def)
  have d: "dedupe ?names = [ascii ''Tag'', ascii ''tag'']"
    by (simp add: dedupe_def str_eval)
  from dedupe_case_sensitive[OF j n a b na nb ne, of ascii_lib example_env 1 1 1]
  have "\<exists>ta tb. map_of (bs_term_map (build_tables ascii_lib example_env ?posts 1 1 1))
               (ascii ''tag'', ascii ''Tag'') = Some ta \<and>
            map_of (bs_term_map (build_tables ascii_lib example_env ?posts 1 1 1))
               (ascii ''tag'', ascii ''tag'') = Some tb \<and>
            tm_mid ta \<noteq> tm_mid tb \<and>
            (1, tm_mid ta) \<in> set (bs_relationships (build_tables ascii_lib example_env ?posts 1 1 1)) \<and>
            (1, tm_mid tb) \<in> set (bs_relationships (build_tables ascii_lib example_env ?posts 1 1 1))"
    unfolding Let_def sa sb by auto
  with d show ?thesis by blast
qed

section \<open>Front-Matter Parser: texts without a front-matter block\<close>

lemma split_not_Nil: "split s sep \<noteq> []"
  by (induction s) (auto split: list.splits)

lemma find_end_index_None:
  "find_end_index ls idx = None \<longleftrightarrow> (\<forall>l \<in> set ls. strip l \<noteq> FRONT_MATTER_BOUNDARY)"
  by (induction ls arbitrary: idx) auto

lemma replace_ne_absent: "old \<noteq> [] \<Longrightarrow> hd old \<notin> set s \<Longrightarrow> replace_ne s old new = s"
proof (induction s old new rule: replace_ne.induct)
  case (1 s old new)
  show ?case
  proof (cases "s = []")
    case True
    then show ?thesis by simp
  next
    case False
    have ns: "\<not> startswith s old"
    proof
      assume "startswith s old"
      then have "hd old = hd s"
        using "1.prems"(1) False by (cases s; cases old) (auto simp: startswith_def)
      then show False using "1.prems"(2) False by (cases s) auto
    qed
    have "hd old \<notin> set (tl s)" using "1.prems"(2) False by (cases s) auto
    then have "replace_ne (tl s) old new = tl s"
      using "1.IH"(2)[OF _ ns] "1.prems"(1) False by simp
    then show ?thesis using False ns "1.prems"(1) by (subst replace_ne.simps) simp
  qed
qed

lemma normalize_newlines_no_cr:
  assumes "13 \<notin> set text"
  shows "normalize_newlines text = text"
proof -
  have a: "replace_ne text [13, 10] [10] = text"
    by (rule replace_ne_absent) (use assms in simp_all)
  have b: "replace_ne text [13] [10] = text"
    by (rule replace_ne_absent) (use assms in simp_all)
  show ?thesis unfolding normalize_newlines_def replace_def by (simp only: a b list.distinct if_False)
qed

text \<open>
  C1 (as amended). When the first line is not the delimiter line, or no later line is
  one, \<open>split_front_matter\<close> returns empty metadata and, as body, the input with its
  line endings normalized to \<open>\n\<close>; that is the input itself when it holds no
  carriage return. A line is a delimiter line when it is \<open>---\<close> after stripping.
\<close>

theorem split_front_matter_without_block:
  assumes "strip (split (normalize_newlines text) 10 ! 0) \<noteq> FRONT_MATTER_BOUNDARY \<or>
           (\<forall>i. 1 \<le> i \<and> i < length (split (normalize_newlines text) 10) \<longrightarrow>
                strip (split (normalize_newlines text) 10 ! i) \<noteq> FRONT_MATTER_BOUNDARY)"
  shows "split_front_matter parse_front_matter text = ([], normalize_newlines text) \<and>
         (13 \<notin> set text \<longrightarrow> split_front_matter parse_front_matter text = ([], text))"
proof -
  let ?lines = "split (normalize_newlines text) 10"
  have ne: "?lines \<noteq> []" by (rule split_not_Nil)
  then have hd0: "hd ?lines = ?lines ! 0" by (simp add: hd_conv_nth)
  have "split_front_matter parse_front_matter text = ([], normalize_newlines text)"
  proof (cases "strip (?lines ! 0) \<noteq> FRONT_MATTER_BOUNDARY")
    case True
    then show ?thesis by (simp add: split_front_matter_def Let_def hd0)
  next
    case False
    with assms have all: "\<forall>i. 1 \<le> i \<and> i < length ?lines \<longrightarrow> strip (?lines ! i) \<noteq> FRONT_MATTER_BOUNDARY"
      by blast
    have "\<forall>l \<in> set (tl ?lines). strip l \<noteq> FRONT_MATTER_BOUNDARY"
    proof
      fix l assume "l \<in> set (tl ?lines)"
      then obtain n where n: "n < length (tl ?lines)" "tl ?lines ! n = l"
        by (auto simp: in_set_conv_nth)
      then have "?lines ! Suc n = l" "Suc n < length ?lines" using ne by (simp_all add: nth_tl)
      with all show "strip l \<noteq> FRONT_MATTER_BOUNDARY" by (metis One_nat_def Suc_le_mono le0)
    qed
    then have "find_end_index (tl ?lines) 1 = None" by (simp add: find_end_index_None)
    then show ?thesis by (simp add: split_front_matter_def Let_def)
  qed
  then show ?thesis by (simp add: normalize_newlines_no_cr)
qed

lemmas fm_eval = split_front_matter_def normalize_newlines_def FRONT_MATTER_BOUNDARY_def

theorem split_front_matter_without_block_witness:
  "split (normalize_newlines (ascii ''---'' @ [10] @ ascii ''title: x'')) 10 =
     [ascii ''---'', ascii ''title: x''] \<and>
   strip (ascii ''title: x'') \<noteq> FRONT_MATTER_BOUNDARY \<and>
   13 \<notin> set (ascii ''---'' @ [10] @ ascii ''title: x'') \<and>
   split_front_matter (\<lambda>s. [(ascii ''title'', PStr (ascii ''x''))])
     (ascii ''---'' @ [10] @ ascii ''title: x'') = ([], ascii ''---'' @ [10] @ ascii ''title: x'')"
proof -
  let ?text = "ascii ''---'' @ [10] @ ascii ''title: x''"
  have l: "split (normalize_newlines ?text) 10 = [ascii ''---'', ascii ''title: x'']"
    by (simp add: fm_eval str_eval)
  have s: "strip (ascii ''title: x'') \<noteq> FRONT_MATTER_BOUNDARY"
    by (simp add: fm_eval str_eval)
  have h: "\<forall>i. 1 \<le> i \<and> i < length (split (normalize_newlines ?text) 10) \<longrightarrow>
        strip (split (normalize_newlines ?text) 10 ! i) \<noteq> FRONT_MATTER_BOUNDARY"
    unfolding l using s by (auto simp: less_Suc_eq)
  have c: "13 \<notin> set ?text" by (simp add: ascii_def)
  from split_front_matter_without_block[OF disjI2[OF h],
      of "\<lambda>s. [(ascii ''title'', PStr (ascii ''x''))]"] c l s
  show ?thesis by blast
qed

text \<open>
  C1 as stated fails on an input with a carriage return: the body of \<open>a\r\nb\<close> is
  \<open>a\nb\<close>, not the input.
\<close>

theorem split_front_matter_verbatim_counterexample:
  "strip (split (normalize_newlines [97, 13, 10, 98]) 10 ! 0) \<noteq> FRONT_MATTER_BOUNDARY \<and>
   split_front_matter (\<lambda>s. []) [97, 13, 10, 98] = ([], [97, 10, 98]) \<and>
   [97, 10, 98] \<noteq> [97, 13, 10, (98::nat)]"
  by (simp add: fm_eval str_eval)

section \<open>Asset Resolver: determinism and the tie-break\<close>





lemma sorted_list_of_set_Nil_iff: "finite A \<Longrightarrow> sorted_list_of_set A = [] \<longleftrightarrow> A = {}"
  by simp



lemmas asset_eval =
  normalize_asset_match_key_def strip_asset_suffix_def is_timestamp_suffix_def



section \<open>Link Rewriter: paths with parent segments\<close>

lemmas url_eval =
  is_relative_url_def match_scheme_def is_scheme_char_def split_url_and_suffix_def
  join_url_prefix_def quote_def quote_byte_def utf8_encode_def hex_digit_def

text \<open>The guard of the code: a path that starts with \<open>../\<close> once the leading \<open>./\<close> are gone is left alone.\<close>

lemma rewrite_rejects_leading_dotdot:
  assumes "startswith (strip_dot_slash (replace (fst (split_url_and_suffix (strip url))) [92] [47]))
             [46, 46, 47]"
  shows "rewrite_relative_asset_url lib url asset_dir_name asset_url_prefix = None"
  using assms by (simp add: rewrite_relative_asset_url_def Let_def)

lemma example_segment_keys:
  "normalize_asset_match_key ascii_lib (ascii ''img'') = ascii ''img''"
  "normalize_asset_match_key ascii_lib (ascii ''post'') = ascii ''post''"
  by (simp_all add: asset_eval str_eval lib_eval)

lemma interior_dotdot_relative: "is_relative_url ascii_lib (ascii ''img/../../x.png'')"
  by (simp add: url_eval str_eval lib_eval)

lemma interior_dotdot_segments:
  "strip (ascii ''img/../../x.png'') = ascii ''img/../../x.png''"
  "split_url_and_suffix (ascii ''img/../../x.png'') = (ascii ''img/../../x.png'', [])"
  "replace (ascii ''img/../../x.png'') [92] [47] = ascii ''img/../../x.png''"
  "strip_dot_slash (ascii ''img/../../x.png'') = ascii ''img/../../x.png''"
  "split (ascii ''img/../../x.png'') 47 = [ascii ''img'', ascii ''..'', ascii ''..'', ascii ''x.png'']"
  by (simp_all add: url_eval str_eval)

lemma interior_dotdot_joined:
  "join_url_prefix (ascii ''/assets'') [ascii ''post'', ascii ''img'', ascii ''..'', ascii ''..'', ascii ''x.png'']
   = ascii ''/assets/post/img/../../x.png''"
  by (simp add: url_eval str_eval lib_eval)

lemma interior_dotdot_rewritten:
  "rewrite_relative_asset_url ascii_lib (ascii ''img/../../x.png'') (ascii ''post'') (ascii ''/assets'')
     = Some (ascii ''/assets/post/img/../../x.png'')"
proof -
  have ne: "\<not> startswith (ascii ''img/../../x.png'') [46, 46, 47]"
    "lstrip_by (\<lambda>c. c = 47) (ascii ''img/../../x.png'') = ascii ''img/../../x.png''"
    "ascii ''img/../../x.png'' \<noteq> []"
    "filter (\<lambda>seg. seg \<noteq> [] \<and> seg \<noteq> [46]) [ascii ''img'', ascii ''..'', ascii ''..'', ascii ''x.png'']
      = [ascii ''img'', ascii ''..'', ascii ''..'', ascii ''x.png'']"
    "ascii ''img'' \<noteq> ascii ''post''"
    "ascii ''/assets/post/img/../../x.png'' \<noteq> []"
    by (simp_all add: str_eval)
  show ?thesis
    unfolding rewrite_relative_asset_url_def Let_def interior_dotdot_segments fst_conv snd_conv ne
    using interior_dotdot_relative
    by (simp add: example_segment_keys ne interior_dotdot_joined)
qed

text \<open>
  The guard comes before \<open>lstrip("/")\<close>: in \<open>.//../x.png\<close> the \<open>../\<close> is at the start
  only after the slashes are stripped, and the URL is rewritten as well.
\<close>

lemma slash_dotdot_rewritten:
  "path_escapes (ascii ''.//../x.png'') \<and>
   rewrite_relative_asset_url ascii_lib (ascii ''.//../x.png'') (ascii ''post'') (ascii ''/assets'')
     = Some (ascii ''/assets/post/../x.png'')"
proof -
  have seg: "strip (ascii ''.//../x.png'') = ascii ''.//../x.png''"
    "split_url_and_suffix (ascii ''.//../x.png'') = (ascii ''.//../x.png'', [])"
    "replace (ascii ''.//../x.png'') [92] [47] = ascii ''.//../x.png''"
    "strip_dot_slash (ascii ''.//../x.png'') = ascii ''/../x.png''"
    "lstrip_by (\<lambda>c. c = 47) (ascii ''/../x.png'') = ascii ''../x.png''"
    "split (ascii ''../x.png'') 47 = [ascii ''..'', ascii ''x.png'']"
    "split (ascii ''.//../x.png'') 47 = [ascii ''.'', [], ascii ''..'', ascii ''x.png'']"
    by (simp_all add: url_eval str_eval)
  have rel: "is_relative_url ascii_lib (ascii ''.//../x.png'')"
    by (simp add: url_eval str_eval lib_eval)
  have ne: "\<not> startswith (ascii ''/../x.png'') [46, 46, 47]" "ascii ''../x.png'' \<noteq> []"
    "filter (\<lambda>seg. seg \<noteq> [] \<and> seg \<noteq> [46]) [ascii ''..'', ascii ''x.png''] =
       [ascii ''..'', ascii ''x.png'']"
    "ascii ''/assets/post/../x.png'' \<noteq> []"
    by (simp_all add: str_eval)
  have key: "normalize_asset_match_key ascii_lib (ascii ''..'') = []"
    by (simp add: asset_eval str_eval lib_eval)
  have k2: "[] \<noteq> ascii ''post''" by (simp add: ascii_def)
  have j: "join_url_prefix (ascii ''/assets'') [ascii ''post'', ascii ''..'', ascii ''x.png''] =
           ascii ''/assets/post/../x.png''"
    by (simp add: url_eval str_eval lib_eval)
  have e: "path_escapes (ascii ''.//../x.png'')"
    unfolding path_escapes_def seg by (simp add: ascii_def)
  have "rewrite_relative_asset_url ascii_lib (ascii ''.//../x.png'') (ascii ''post'') (ascii ''/assets'')
     = Some (ascii ''/assets/post/../x.png'')"
    unfolding rewrite_relative_asset_url_def Let_def seg fst_conv snd_conv ne
    using rel by (simp add: ne key k2 j example_segment_keys)
  with e show ?thesis by simp
qed

lemma interior_dotdot_target:
  "split_markdown_target (ascii ''img/../../x.png'') = (ascii ''img/../../x.png'', [], False)"
  by (simp add: split_markdown_target_def str_eval)

lemma interior_dotdot_match:
  "match_markdown_image (ascii ''![x](img/../../x.png)'') 0 =
     Some (21, [ascii ''![x](img/../../x.png)'', ascii ''![x]('', ascii ''img/../../x.png'', ascii '')''])"
  by (simp add: match_markdown_image_def str_eval)

lemma interior_dotdot_markdown_pass:
  "re_sub match_markdown_image (replace_markdown ascii_lib (ascii ''post'') (ascii ''/assets''))
     (ascii ''![x](img/../../x.png)'') 0 = (ascii ''![x](/assets/post/img/../../x.png)'', 1)"
proof -
  have l: "length (ascii ''![x](img/../../x.png)'') = 21" by (simp add: ascii_def)
  have r: "replace_markdown ascii_lib (ascii ''post'') (ascii ''/assets'') 0
        [ascii ''![x](img/../../x.png)'', ascii ''![x]('', ascii ''img/../../x.png'', ascii '')'']
      = (ascii ''![x](/assets/post/img/../../x.png)'', 1)"
    by (simp add: replace_markdown_def interior_dotdot_target interior_dotdot_rewritten)
       (simp add: ascii_def)
  have e: "re_sub_from match_markdown_image (replace_markdown ascii_lib (ascii ''post'') (ascii ''/assets''))
     (ascii ''![x](img/../../x.png)'') 21 1 = ([], 1)"
    by (subst re_sub_from.simps) (simp add: l)
  show ?thesis
    unfolding re_sub_def
    by (subst re_sub_from.simps) (simp add: l interior_dotdot_match r e)
qed

lemma interior_dotdot_html_pass:
  "re_sub (match_html_img_src ascii_lib) (replace_html ascii_lib (ascii ''post'') (ascii ''/assets''))
     (ascii ''![x](/assets/post/img/../../x.png)'') 1 = (ascii ''![x](/assets/post/img/../../x.png)'', 1)"
  by (simp add: re_sub_def match_html_img_src_def str_eval)

text \<open>
  C4. The guard of \<open>rewrite_relative_asset_url\<close> tests the start of the path only. The
  URL \<open>img/../../x.png\<close> escapes the current directory and is rewritten all the same:
  the link text changes and the counter is incremented.
\<close>

theorem rewrite_interior_dotdot:
  "path_escapes (ascii ''img/../../x.png'') \<and>
   rewrite_relative_asset_url ascii_lib (ascii ''img/../../x.png'') (ascii ''post'') (ascii ''/assets'')
     = Some (ascii ''/assets/post/img/../../x.png'') \<and>
   rewrite_image_links ascii_lib (ascii ''![x](img/../../x.png)'') (Some (ascii ''post''))
     (ascii ''prefix'') (ascii ''/assets'') = (ascii ''![x](/assets/post/img/../../x.png)'', 1)"
proof -
  have e: "path_escapes (ascii ''img/../../x.png'')"
    unfolding path_escapes_def interior_dotdot_segments by (simp add: ascii_def)
  have n: "ascii ''post'' \<noteq> []" by (simp add: ascii_def)
  have l: "rewrite_image_links ascii_lib (ascii ''![x](img/../../x.png)'') (Some (ascii ''post''))
     (ascii ''prefix'') (ascii ''/assets'') = (ascii ''![x](/assets/post/img/../../x.png)'', 1)"
    unfolding rewrite_image_links_def using n
    by (simp add: interior_dotdot_markdown_pass interior_dotdot_html_pass)
  from e interior_dotdot_rewritten l show ?thesis by simp
qed

section \<open>Math Normalizer: masking and restoring\<close>

lemmas tok_eval =
  TOKEN_PREFIX_def make_token_def mask_fenced_code_blocks_def mask_inline_code_spans_def
  splitlines_keepends_def is_linebreak_def match_fence_open_def match_fence_close_def
  restore_tokens_def dict_update_def

lemmas math_eval =
  normalize_mathjax_underscores_def protect_math_def protect_repl_def inline_repl_def re_sub_def
  match_delim_def DISPLAY_DOLLAR_RE_def BRACKET_MATH_RE_def PAREN_MATH_RE_def
  INLINE_DOLLAR_RE_def normalize_math_underscores_segment_def escape_math_underscores_def
  is_escaped_at_def unescape_math_underscores_def

lemma span_over_fence_masked:
  "mask_fenced_code_blocks ([96, 10, 96, 96, 96, 10] @ ascii ''x'' @ [10, 96, 96, 96, 10, 96]) 0 =
     ([96, 10] @ ascii ''@@HEXO2TYPECHO_TOKEN_0@@'' @ [96],
      [(ascii ''@@HEXO2TYPECHO_TOKEN_0@@'', [96, 96, 96, 10] @ ascii ''x'' @ [10, 96, 96, 96, 10])],
      1)"
  by (simp add: tok_eval str_eval)

lemma span_over_fence_inline:
  "mask_inline_code_spans ([96, 10] @ ascii ''@@HEXO2TYPECHO_TOKEN_0@@'' @ [96]) 1 =
     (ascii ''@@HEXO2TYPECHO_TOKEN_1@@'',
      [(ascii ''@@HEXO2TYPECHO_TOKEN_1@@'', [96, 10] @ ascii ''@@HEXO2TYPECHO_TOKEN_0@@'' @ [96])],
      2)"
  by (simp add: tok_eval str_eval)

lemma span_over_fence_restored:
  "restore_tokens (ascii ''@@HEXO2TYPECHO_TOKEN_1@@'')
     (dict_update
        [(ascii ''@@HEXO2TYPECHO_TOKEN_0@@'', [96, 96, 96, 10] @ ascii ''x'' @ [10, 96, 96, 96, 10])]
        [(ascii ''@@HEXO2TYPECHO_TOKEN_1@@'', [96, 10] @ ascii ''@@HEXO2TYPECHO_TOKEN_0@@'' @ [96])]) =
   [96, 10] @ ascii ''@@HEXO2TYPECHO_TOKEN_0@@'' @ [96]"
  by (simp add: tok_eval str_eval)

text \<open>
  C2. The document below holds no token text. A lone backtick stands before a fenced
  block and another one after it, so the inline pass takes the fence token into the
  span it masks. The tokens are restored in the order of their creation, the fence token
  first, when it is not yet in the text: it stays in the result, and the fenced block is
  lost. Restoring the inline tokens before the fence tokens would give the document back
  (last conjunct).
\<close>

theorem mask_restore_loses_fence:
  "\<not> contains ([96, 10, 96, 96, 96, 10] @ ascii ''x'' @ [10, 96, 96, 96, 10, 96]) TOKEN_PREFIX \<and>
   mask_restore ([96, 10, 96, 96, 96, 10] @ ascii ''x'' @ [10, 96, 96, 96, 10, 96]) =
     [96, 10] @ ascii ''@@HEXO2TYPECHO_TOKEN_0@@'' @ [96] \<and>
   mask_restore ([96, 10, 96, 96, 96, 10] @ ascii ''x'' @ [10, 96, 96, 96, 10, 96]) \<noteq>
     [96, 10, 96, 96, 96, 10] @ ascii ''x'' @ [10, 96, 96, 96, 10, 96] \<and>
   normalize_mathjax_underscores
     ([96, 10, 96, 96, 96, 10] @ ascii ''x'' @ [10, 96, 96, 96, 10, 96]) (ascii ''escaped'') =
     [96, 10] @ ascii ''@@HEXO2TYPECHO_TOKEN_0@@'' @ [96] \<and>
   restore_tokens
     (restore_tokens (ascii ''@@HEXO2TYPECHO_TOKEN_1@@'')
        [(ascii ''@@HEXO2TYPECHO_TOKEN_1@@'', [96, 10] @ ascii ''@@HEXO2TYPECHO_TOKEN_0@@'' @ [96])])
     [(ascii ''@@HEXO2TYPECHO_TOKEN_0@@'', [96, 96, 96, 10] @ ascii ''x'' @ [10, 96, 96, 96, 10])] =
     [96, 10, 96, 96, 96, 10] @ ascii ''x'' @ [10, 96, 96, 96, 10, 96]"
proof -
  let ?x = "[96, 10, 96, 96, 96, 10] @ ascii ''x'' @ [10, 96, 96, 96, 10, 96]"
  have a: "\<not> contains ?x TOKEN_PREFIX" by (simp add: TOKEN_PREFIX_def str_eval)
  have b: "mask_restore ?x = [96, 10] @ ascii ''@@HEXO2TYPECHO_TOKEN_0@@'' @ [96]"
    unfolding mask_restore_def span_over_fence_masked prod.case span_over_fence_inline
    by (rule span_over_fence_restored)
  have c: "[96, 10] @ ascii ''@@HEXO2TYPECHO_TOKEN_0@@'' @ [96] \<noteq> ?x" by (simp add: ascii_def)
  have d: "normalize_mathjax_underscores ?x (ascii ''escaped'') =
           [96, 10] @ ascii ''@@HEXO2TYPECHO_TOKEN_0@@'' @ [96]"
    by (simp add: math_eval tok_eval str_eval)
  have e: "restore_tokens
     (restore_tokens (ascii ''@@HEXO2TYPECHO_TOKEN_1@@'')
        [(ascii ''@@HEXO2TYPECHO_TOKEN_1@@'', [96, 10] @ ascii ''@@HEXO2TYPECHO_TOKEN_0@@'' @ [96])])
     [(ascii ''@@HEXO2TYPECHO_TOKEN_0@@'', [96, 96, 96, 10] @ ascii ''x'' @ [10, 96, 96, 96, 10])] =
     ?x"
    by (simp add: tok_eval str_eval)
  from a b c d e show ?thesis by simp
qed

text \<open>The scenario of the spec: the code span is kept, the math region is escaped.\<close>

lemma code_span_scenario:
  "normalize_mathjax_underscores ([96] @ ascii ''$x_1$'' @ [96] @ ascii '' and $x_1$'')
     (ascii ''escaped'') =
   [96] @ ascii ''$x_1$'' @ [96] @ ascii '' and $x'' @ [92] @ ascii ''_1$''"
  by (simp add: math_eval tok_eval str_eval)

text \<open>
  C8. The token that stands for a code span contains underscores. When the span lies
  between two dollar signs of the text, the inline-math pass escapes them, the token is
  no longer found when the code tokens are restored, and the code span is gone from
  the result.
\<close>

theorem code_span_between_dollars:
  "normalize_mathjax_underscores (ascii ''$5 '' @ [96] @ ascii ''$x_1$'' @ [96] @ ascii '' $6 $x_1$'')
     (ascii ''escaped'') =
   ascii ''$5 @@HEXO2TYPECHO'' @ [92] @ ascii ''_TOKEN'' @ [92] @ ascii ''_0@@ $6 $x'' @ [92] @
   ascii ''_1$'' \<and>
   \<not> contains (ascii ''$5 @@HEXO2TYPECHO'' @ [92] @ ascii ''_TOKEN'' @ [92] @ ascii ''_0@@ $6 $x'' @
                [92] @ ascii ''_1$'') ([96] @ ascii ''$x_1$'' @ [96])"
proof -
  have a: "normalize_mathjax_underscores
      (ascii ''$5 '' @ [96] @ ascii ''$x_1$'' @ [96] @ ascii '' $6 $x_1$'') (ascii ''escaped'') =
    ascii ''$5 @@HEXO2TYPECHO'' @ [92] @ ascii ''_TOKEN'' @ [92] @ ascii ''_0@@ $6 $x'' @ [92] @
    ascii ''_1$''"
    by (simp add: math_eval tok_eval str_eval)
  have b: "\<not> contains (ascii ''$5 @@HEXO2TYPECHO'' @ [92] @ ascii ''_TOKEN'' @ [92] @
                ascii ''_0@@ $6 $x'' @ [92] @ ascii ''_1$'') ([96] @ ascii ''$x_1$'' @ [96])"
    by (simp add: str_eval)
  from a b show ?thesis by simp
qed

section \<open>Post Assembler: the invariant of a post\<close>












end
